theory Spec2Isabelle
  imports Main "HOL-Library.Sublist" "HOL-Library.Product_Lexorder"
begin

section \<open>Python strings\<close>

text \<open>
  Python \<open>str\<close> values are modelled as \<^typ>\<open>string\<close>; \<open>len\<close> is \<^const>\<open>length\<close>,
  \<open>s[:n]\<close> is \<^const>\<open>take\<close>, \<open>s[n:]\<close> is \<^const>\<open>drop\<close>, \<open>s.startswith(p)\<close> is
  \<^const>\<open>prefix\<close> and \<open>s.endswith(p)\<close> is \<^const>\<open>suffix\<close>. The characters of the
  model are those of \<^typ>\<open>char\<close>, so the development speaks about ASCII text.
\<close>

text \<open>\<open>s.find(pat)\<close>: the index of the first occurrence of \<open>pat\<close>, if any.\<close>

fun find_sub :: "string \<Rightarrow> string \<Rightarrow> nat option" where
  "find_sub pat [] = (if pat = [] then Some 0 else None)"
| "find_sub pat (c # cs) =
     (if prefix pat (c # cs) then Some 0 else map_option Suc (find_sub pat cs))"

text \<open>\<open>pat in s\<close>.\<close>

definition contains :: "string \<Rightarrow> string \<Rightarrow> bool" where
  "contains pat s = (find_sub pat s \<noteq> None)"

text \<open>
  \<open>s.replace(old, new)\<close>: every non-overlapping occurrence of \<open>old\<close>, scanning from
  the left, is replaced; an empty \<open>old\<close> matches before every character and at the end.
\<close>

fun replace_ne :: "string \<Rightarrow> string \<Rightarrow> string \<Rightarrow> string" where
  "replace_ne old new [] = []"
| "replace_ne old new (c # cs) =
     (if prefix old (c # cs) then new @ replace_ne old new (drop (length old - 1) cs)
      else c # replace_ne old new cs)"

definition replace_str :: "string \<Rightarrow> string \<Rightarrow> string \<Rightarrow> string" where
  "replace_str old new s =
     (if old = [] then new @ concat (map (\<lambda>c. c # new) s) else replace_ne old new s)"

text \<open>\<open>s.split(sep)\<close> for a one-character separator.\<close>

fun split_sep :: "char \<Rightarrow> string \<Rightarrow> string list" where
  "split_sep sep [] = [[]]"
| "split_sep sep (c # cs) =
     (if c = sep then [] # split_sep sep cs
      else (case split_sep sep cs of [] \<Rightarrow> [[c]] | w # ws \<Rightarrow> (c # w) # ws))"

text \<open>\<open>sep.join(words)\<close>.\<close>

fun join_sep :: "string \<Rightarrow> string list \<Rightarrow> string" where
  "join_sep sep [] = []"
| "join_sep sep [w] = w"
| "join_sep sep (w # ws) = w @ sep @ join_sep sep ws"

text \<open>\<open>s.lstrip(c)\<close> and \<open>s.rstrip(c)\<close> for a single character.\<close>

definition lstrip_char :: "char \<Rightarrow> string \<Rightarrow> string" where
  "lstrip_char c s = dropWhile (\<lambda>x. x = c) s"

definition rstrip_char :: "char \<Rightarrow> string \<Rightarrow> string" where
  "rstrip_char c s = rev (dropWhile (\<lambda>x. x = c) (rev s))"

text \<open>\<open>s.lower()\<close>, \<open>s.upper()\<close> and \<open>s.capitalize()\<close> on ASCII letters.\<close>

definition lower_char :: "char \<Rightarrow> char" where
  "lower_char c =
     (let n = (of_char c :: nat) in if 65 \<le> n \<and> n \<le> 90 then char_of (n + 32) else c)"

definition upper_char :: "char \<Rightarrow> char" where
  "upper_char c =
     (let n = (of_char c :: nat) in if 97 \<le> n \<and> n \<le> 122 then char_of (n - 32) else c)"

definition lower :: "string \<Rightarrow> string" where
  "lower s = map lower_char s"

definition capitalize :: "string \<Rightarrow> string" where
  "capitalize s = (case s of [] \<Rightarrow> [] | c # cs \<Rightarrow> upper_char c # map lower_char cs)"

text \<open>
  \<open>s.strip()\<close> removes leading and trailing whitespace: the ASCII characters tab, line
  feed, vertical tab, form feed, carriage return, the four separators \<open>0x1c\<close> to
  \<open>0x1f\<close>, and the space.
\<close>

definition is_space :: "char \<Rightarrow> bool" where
  "is_space c = (let n = (of_char c :: nat) in (9 \<le> n \<and> n \<le> 13) \<or> (28 \<le> n \<and> n \<le> 32))"

definition strip :: "string \<Rightarrow> string" where
  "strip s = rev (dropWhile is_space (rev (dropWhile is_space s)))"

text \<open>\<open>s.split('\n')[0]\<close>: the text before the first line feed.\<close>

definition first_line :: "string \<Rightarrow> string" where
  "first_line s = takeWhile (\<lambda>c. c \<noteq> CHR 0x0A) s"


section \<open>Python \<open>posixpath\<close>\<close>

text \<open>
  \<open>os.path.dirname\<close> and \<open>os.path.basename\<close> cut the path after its last slash;
  \<open>dirname\<close> then strips the trailing slashes of the head unless the head is made of
  slashes only.
\<close>

definition after_last_sep :: "string \<Rightarrow> nat" where
  "after_last_sep p = length p - length (takeWhile (\<lambda>c. c \<noteq> CHR ''/'') (rev p))"

definition basename :: "string \<Rightarrow> string" where
  "basename p = drop (after_last_sep p) p"

definition dirname :: "string \<Rightarrow> string" where
  "dirname p =
     (let head = take (after_last_sep p) p
      in if head \<noteq> [] \<and> head \<noteq> replicate (length head) CHR ''/''
         then rstrip_char CHR ''/'' head else head)"

text \<open>
  \<open>os.path.splitext\<close>: the extension starts at the last dot, when that dot lies in
  the last component and some character other than a dot precedes it there.
\<close>

definition splitext :: "string \<Rightarrow> string \<times> string" where
  "splitext p =
     (if CHR ''.'' \<in> set p
      then (let dotIndex = length p - 1 - length (takeWhile (\<lambda>c. c \<noteq> CHR ''.'') (rev p))
            in if \<exists>c \<in> set (drop (after_last_sep p) (take dotIndex p)). c \<noteq> CHR ''.''
               then (take dotIndex p, drop dotIndex p) else (p, []))
      else (p, []))"

text \<open>\<open>os.path.join(a, b)\<close> and \<open>os.path.join(*parts)\<close>.\<close>

definition join2 :: "string \<Rightarrow> string \<Rightarrow> string" where
  "join2 a b =
     (if prefix ''/'' b then b
      else if a = [] \<or> suffix ''/'' a then a @ b
      else a @ ''/'' @ b)"

definition join_parts :: "string list \<Rightarrow> string" where
  "join_parts ps = (case ps of [] \<Rightarrow> [] | a # bs \<Rightarrow> foldl join2 a bs)"

text \<open>
  \<open>os.path.normpath\<close>: empty and \<open>.\<close> components vanish, \<open>..\<close> removes the
  component before it (and is kept only at the front of a relative path).
\<close>

definition norm_step :: "nat \<Rightarrow> string list \<Rightarrow> string \<Rightarrow> string list" where
  "norm_step initial_slashes new_comps cmp =
     (if cmp = [] \<or> cmp = ''.'' then new_comps
      else if cmp \<noteq> ''..'' \<or> (initial_slashes = 0 \<and> new_comps = [])
              \<or> (new_comps \<noteq> [] \<and> last new_comps = ''..'')
      then new_comps @ [cmp]
      else if new_comps \<noteq> [] then butlast new_comps
      else new_comps)"

definition normpath :: "string \<Rightarrow> string" where
  "normpath path =
     (if path = [] then ''.''
      else
        let initial_slashes =
              (if prefix ''/'' path
               then (if prefix ''//'' path \<and> \<not> prefix ''///'' path then 2 else 1)
               else (0::nat));
            comps = foldl (norm_step initial_slashes) [] (split_sep CHR ''/'' path);
            path' = replicate initial_slashes CHR ''/'' @ join_sep ''/'' comps
        in if path' = [] then ''.'' else path')"

text \<open>
  \<open>os.path.abspath\<close> joins a relative path to the working directory \<open>cwd\<close> (what
  \<open>os.getcwd()\<close> returns) and normalises.
\<close>

definition abspath :: "string \<Rightarrow> string \<Rightarrow> string" where
  "abspath cwd path = normpath (if prefix ''/'' path then path else join2 cwd path)"

datatype error =
    FileNotFoundError
  | IsADirectoryError
  | NotADirectoryError
  | FileExistsError
  | UnicodeDecodeError
  | ValueError
  | ReError
  | IndexError

text \<open>
  \<open>os.path.relpath(path, start)\<close>: \<open>ValueError\<close> on an empty path; otherwise one
  \<open>..\<close> for every component of \<open>start\<close> that is not shared, then the components
  of \<open>path\<close> that are not shared.
\<close>

definition relpath :: "string \<Rightarrow> string \<Rightarrow> string \<Rightarrow> error + string" where
  "relpath cwd path start =
     (if path = [] then Inl ValueError
      else
        let start_tail = lstrip_char CHR ''/'' (abspath cwd start);
            path_tail = lstrip_char CHR ''/'' (abspath cwd path);
            start_list = (if start_tail = [] then [] else split_sep CHR ''/'' start_tail);
            path_list = (if path_tail = [] then [] else split_sep CHR ''/'' path_tail);
            i = length (longest_common_prefix start_list path_list);
            rel_list = replicate (length start_list - i) ''..'' @ drop i path_list
        in if rel_list = [] then Inr ''.'' else Inr (join_parts rel_list))"


section \<open>Change records\<close>

text \<open>
  A commit's author date. Two dates compare as their fields do, most significant first.
\<close>

record datetime =
  year :: int
  month :: int
  day :: int
  hour :: int
  minute :: int
  second :: int

definition dt_key :: "datetime \<Rightarrow> int \<times> int \<times> int \<times> int \<times> int \<times> int" where
  "dt_key d = (year d, month d, day d, hour d, minute d, second d)"

definition digit :: "int \<Rightarrow> char" where
  "digit n = ''0123456789'' ! nat (n mod 10)"

text \<open>
  \<open>strftime("%Y-%m-%d")\<close> and \<open>strftime("%Y-%m-%d %H:%M:%S")\<close>. \<open>%Y\<close> is the
  year in decimal, without padding, as the C library prints it; the year of a
  \<open>datetime\<close> is at most 9999. The other fields are padded to two digits.
\<close>

definition pad2 :: "int \<Rightarrow> string" where
  "pad2 n = [digit (n div 10), digit n]"

definition pad4 :: "int \<Rightarrow> string" where
  "pad4 n = [digit (n div 1000), digit (n div 100), digit (n div 10), digit n]"

definition year_digits :: "int \<Rightarrow> string" where
  "year_digits y =
     (if y < 10 then [digit y]
      else if y < 100 then [digit (y div 10), digit y]
      else if y < 1000 then [digit (y div 100), digit (y div 10), digit y]
      else pad4 y)"

definition strftime_date :: "datetime \<Rightarrow> string" where
  "strftime_date d = year_digits (year d) @ ''-'' @ pad2 (month d) @ ''-'' @ pad2 (day d)"

definition strftime_datetime :: "datetime \<Rightarrow> string" where
  "strftime_datetime d =
     strftime_date d @ '' '' @ pad2 (hour d) @ '':'' @ pad2 (minute d) @ '':'' @ pad2 (second d)"

text \<open>The value stored per path: the dictionary with the keys \<open>date\<close>,
  \<open>commit_message\<close>, \<open>commit_url\<close> and \<open>author\<close>.\<close>

record info =
  date :: datetime
  commit_message :: string
  commit_url :: string
  author :: string

text \<open>
  A Python \<open>dict\<close> keeps its keys in insertion order, and the order decides how the
  stable sort of the scoper leaves ties; so a dictionary is an association list. Storing
  under a present key keeps the key's position, storing under a new key appends.
\<close>

type_synonym 'v dict = "(string \<times> 'v) list"

fun dict_set :: "'v dict \<Rightarrow> string \<Rightarrow> 'v \<Rightarrow> 'v dict" where
  "dict_set [] k v = [(k, v)]"
| "dict_set ((k', v') # kvs) k v =
     (if k' = k then (k, v) # kvs else (k', v') # dict_set kvs k v)"

definition dict_get :: "'v dict \<Rightarrow> string \<Rightarrow> 'v option" where
  "dict_get d k = map_of d k"


section \<open>Exclusion filter and change aggregator\<close>

text \<open>
  The exclusion patterns are matched with \<open>re.match\<close>, that is at the start of the path.
  Two shapes occur: \<open>^lit.*\<close>, which holds of every path that starts with \<open>lit\<close>, and
  \<open>^lit$\<close>, which holds of \<open>lit\<close> itself and of \<open>lit\<close> followed by one line feed
  (\<open>$\<close> also matches before a final line feed).
\<close>

datatype pattern = StartsWith string | Exactly string

fun re_match :: "pattern \<Rightarrow> string \<Rightarrow> bool" where
  "re_match (StartsWith lit) path = prefix lit path"
| "re_match (Exactly lit) path = (path = lit \<or> path = lit @ [CHR 0x0A])"

definition EXCLUDE_PATTERNS :: "pattern list" where
  "EXCLUDE_PATTERNS =
     [StartsWith ''.git'', StartsWith ''.github'', Exactly ''LICENSE'', Exactly ''.gitignore'']"

definition JEKYLL_EXCLUDE_PATTERNS :: "pattern list" where
  "JEKYLL_EXCLUDE_PATTERNS =
     [StartsWith ''.git'', StartsWith ''.github'', Exactly ''LICENSE'', Exactly ''.gitignore'',
      StartsWith ''_site/'', StartsWith ''.sass-cache/'', StartsWith ''.jekyll-cache/'',
      StartsWith ''vendor/'']"

definition should_exclude :: "pattern list \<Rightarrow> string \<Rightarrow> bool" where
  "should_exclude patterns path = list_ex (\<lambda>pat. re_match pat path) patterns"

text \<open>What the commit listing gives for one commit: the author date, the message, the
  web address, the author's name and the names of the files the commit touched.\<close>

record commit =
  author_date :: datetime
  message :: string
  html_url :: string
  author_name :: string
  files :: "string list"

definition NUM_FILES :: nat where
  "NUM_FILES = 10"

text \<open>The record that \<open>get_repo_changes\<close> stores for a file of commit \<open>c\<close>.\<close>

definition record_of :: "commit \<Rightarrow> info" where
  "record_of c =
     \<lparr>date = author_date c, commit_message = first_line (message c),
      commit_url = html_url c, author = author_name c\<rparr>"

text \<open>The body of the inner loop of \<open>get_repo_changes\<close>, for one file of one commit.\<close>

definition track_file :: "pattern list \<Rightarrow> commit \<Rightarrow> info dict \<Rightarrow> string \<Rightarrow> info dict" where
  "track_file patterns c file_updates file_path =
     (if should_exclude patterns file_path then file_updates
      else if (case dict_get file_updates file_path of
                 None \<Rightarrow> True
               | Some old \<Rightarrow> dt_key (author_date c) > dt_key (date old))
      then dict_set file_updates file_path (record_of c)
      else file_updates)"

text \<open>
  \<open>get_repo_changes\<close>, from the commit listing of the default branch (newest first) on:
  the first 100 commits of the listing are read, in order.
\<close>

definition get_repo_changes :: "pattern list \<Rightarrow> commit list \<Rightarrow> info dict" where
  "get_repo_changes patterns commits =
     foldl (\<lambda>file_updates c. foldl (track_file patterns c) file_updates (files c))
       [] (take 100 commits)"

text \<open>
  What the loop does to the record of one path \<open>p\<close>, seen apart from the other paths:
  a commit that touches \<open>p\<close> replaces the record when there is none or when the commit's
  date is later than the record's; \<open>seen\<close> runs over a list of commits.
\<close>

definition observe :: "commit \<Rightarrow> info option \<Rightarrow> info option" where
  "observe c r =
     (case r of
        None \<Rightarrow> Some (record_of c)
      | Some old \<Rightarrow>
          if dt_key (author_date c) > dt_key (date old) then Some (record_of c) else Some old)"

definition seen :: "string \<Rightarrow> info option \<Rightarrow> commit list \<Rightarrow> info option" where
  "seen p r cs = foldl (\<lambda>r c. if p \<in> set (files c) then observe c r else r) r cs"


section \<open>Directory scoper\<close>

text \<open>
  \<open>sorted(items, key=..., reverse=True)\<close> is stable: it reverses the list, sorts it
  stably in ascending order of the key and reverses the result.
\<close>

definition sorted_reverse :: "('a \<Rightarrow> 'k::linorder) \<Rightarrow> 'a list \<Rightarrow> 'a list" where
  "sorted_reverse key xs = rev (sort_key key (rev xs))"

definition directory_prefix :: "string \<Rightarrow> string" where
  "directory_prefix directory =
     (let directory_path = dirname directory
      in if directory_path = [] then [] else directory_path @ ''/'')"

text \<open>The body of the loop that fills \<open>dir_files\<close>.\<close>

definition scope_step :: "string \<Rightarrow> info dict \<Rightarrow> string \<times> info \<Rightarrow> info dict" where
  "scope_step directory dir_files entry =
     (case entry of (file_path, info) \<Rightarrow>
        if prefix (directory_prefix directory) file_path
        then (if file_path = directory then dir_files
              else dict_set dir_files file_path info)
        else dir_files)"

definition get_directory_changes :: "string \<Rightarrow> info dict \<Rightarrow> (string \<times> info) list" where
  "get_directory_changes directory all_file_updates =
     (let dir_files = foldl (scope_step directory) [] all_file_updates
      in take NUM_FILES (sorted_reverse (\<lambda>x. dt_key (date (snd x))) dir_files))"


section \<open>Renderer\<close>

definition START_MARKER :: string where
  "START_MARKER = ''<!-- RECENT_CHANGES_START -->''"

definition END_MARKER :: string where
  "END_MARKER = ''<!-- RECENT_CHANGES_END -->''"

text \<open>The commit message column: messages of more than 60 characters are cut.\<close>

definition commit_msg_cell :: "string \<Rightarrow> string" where
  "commit_msg_cell commit_msg =
     (if length commit_msg > 60 then take 57 commit_msg @ ''...'' else commit_msg)"

definition table_row :: "string \<Rightarrow> string \<Rightarrow> info \<Rightarrow> string" where
  "table_row file_name file_link info =
     ''| ['' @ file_name @ '']('' @ file_link @ '') | '' @ strftime_date (date info) @ '' | ''
       @ author info @ '' | ['' @ commit_msg_cell (commit_message info) @ '']('' @ commit_url info
       @ '') |'' @ [CHR 0x0A]"

text \<open>
  The path of the changed file relative to the directory \<open>from_dir\<close>; the file's own
  path when \<open>from_dir\<close> is empty.
\<close>

definition rel_path_from :: "string \<Rightarrow> string \<Rightarrow> string \<Rightarrow> error + string" where
  "rel_path_from cwd from_dir file_path =
     (if from_dir \<noteq> [] then relpath cwd file_path from_dir else Inr file_path)"

text \<open>One row of \<open>update_readme\<close> in \<open>update_readmes.py\<close>.\<close>

definition readme_row :: "string \<Rightarrow> string \<Rightarrow> string \<times> info \<Rightarrow> error + string" where
  "readme_row cwd readme_path entry =
     (case entry of (file_path, info) \<Rightarrow>
        (case rel_path_from cwd (dirname readme_path) file_path of
           Inl e \<Rightarrow> Inl e
         | Inr rel_path \<Rightarrow>
             Inr (table_row (basename file_path) (replace_str '' '' ''%20'' rel_path) info)))"

text \<open>The loop over the scoped entries: the rows in order, or the first exception.\<close>

fun render_rows :: "('e \<Rightarrow> error + string) \<Rightarrow> 'e list \<Rightarrow> error + string" where
  "render_rows row [] = Inr []"
| "render_rows row (e # es) =
     (case row e of
        Inl err \<Rightarrow> Inl err
      | Inr r \<Rightarrow> (case render_rows row es of Inl err \<Rightarrow> Inl err | Inr rs \<Rightarrow> Inr (r @ rs)))"

definition fragment_head :: "datetime \<Rightarrow> string" where
  "fragment_head now =
     START_MARKER @ [CHR 0x0A] @ ''## Recently Updated Files'' @ [CHR 0x0A, CHR 0x0A]
       @ ''*Last updated: '' @ strftime_datetime now @ ''*'' @ [CHR 0x0A, CHR 0x0A]"

definition table_head :: string where
  "table_head =
     ''| File | Last Updated | Author | Commit Message |'' @ [CHR 0x0A]
       @ ''| ---- | ------------ | ------ | -------------- |'' @ [CHR 0x0A]"

definition no_changes :: string where
  "no_changes = ''*No recent changes found in this directory*'' @ [CHR 0x0A]"

text \<open>The text \<open>recent_changes_content\<close>, from the start marker to the end marker.\<close>

definition fragment :: "('e \<Rightarrow> error + string) \<Rightarrow> datetime \<Rightarrow> 'e list \<Rightarrow> error + string" where
  "fragment row now recent_files =
     (if recent_files \<noteq> []
      then (case render_rows row recent_files of
              Inl e \<Rightarrow> Inl e
            | Inr rows \<Rightarrow>
                Inr (fragment_head now @ table_head @ rows @ [CHR 0x0A] @ END_MARKER))
      else Inr (fragment_head now @ no_changes @ [CHR 0x0A] @ END_MARKER))"


subsection \<open>Rows of \<open>update_jekyll_readmes.py\<close>\<close>

definition JEKYLL_DIRS :: "string list" where
  "JEKYLL_DIRS = [''_posts'', ''_pages'', ''_layouts'', ''_includes'', ''assets'', ''img'', ''video'']"

definition is_digit :: "char \<Rightarrow> bool" where
  "is_digit c = (let n = (of_char c :: nat) in 48 \<le> n \<and> n \<le> 57)"

text \<open>
  \<open>re.match(r'_posts/(\d{4}-\d{2}-\d{2})-(.*?)\.md', file_path)\<close>: the two groups, when
  the path starts with \<open>_posts/\<close>, a date and a dash, and \<open>.md\<close> follows on the same
  line; the slug is the shortest one, so it ends at the first \<open>.md\<close>.
\<close>

definition post_match :: "string \<Rightarrow> (string \<times> string) option" where
  "post_match file_path =
     (if prefix ''_posts/'' file_path then
        (let r = drop 7 file_path; d = take 10 r; rest = drop 11 r
         in if length r \<ge> 11
               \<and> list_all is_digit (take 4 d) \<and> d ! 4 = CHR ''-''
               \<and> list_all is_digit (take 2 (drop 5 d)) \<and> d ! 7 = CHR ''-''
               \<and> list_all is_digit (drop 8 d) \<and> r ! 10 = CHR ''-''
            then (case find_sub ''.md'' rest of
                    None \<Rightarrow> None
                  | Some k \<Rightarrow>
                      if CHR 0x0A \<in> set (take k rest) then None else Some (d, take k rest))
            else None)
      else None)"

text \<open>The link of a row when the markdown target is a Jekyll file.\<close>

definition jekyll_link :: "string \<Rightarrow> string" where
  "jekyll_link file_path =
     (let file_ext = snd (splitext (basename file_path))
      in if prefix ''_posts/'' file_path then
           (case post_match file_path of
              Some (date_part, slug) \<Rightarrow> ''/blog/'' @ slug
            | None \<Rightarrow> ''/'' @ replace_str ''.md'' ''/'' file_path)
         else if (file_ext = ''.md'' \<or> file_ext = ''.markdown'')
                 \<and> \<not> suffix ''README.md'' file_path then
           ''/'' @ replace_str ''.markdown'' ''/'' (replace_str ''.md'' ''/'' file_path)
         else ''/'' @ file_path)"

text \<open>The label of a row when the markdown target is a Jekyll file.\<close>

definition jekyll_name :: "string \<Rightarrow> string" where
  "jekyll_name file_path =
     (let file_name =
            (case (if prefix ''_posts/'' file_path then post_match file_path else None) of
               Some (date_part, slug) \<Rightarrow> date_part @ '': '' @ replace_str ''-'' '' '' slug
             | None \<Rightarrow> basename file_path)
      in if lower file_name = ''readme.md''
         then basename (if dirname file_path \<noteq> [] then dirname file_path else ''Main'')
         else file_name)"

text \<open>
  One row of \<open>update_file\<close>. Inside the loop the name \<open>file_path\<close> is the loop
  variable, the path of the changed file: \<open>current_dir\<close> is the directory of the changed
  file, and the relative path is taken from there.
\<close>

definition jekyll_row :: "string \<Rightarrow> bool \<Rightarrow> string \<times> info \<Rightarrow> error + string" where
  "jekyll_row cwd is_jekyll entry =
     (case entry of (file_path, info) \<Rightarrow>
        (case rel_path_from cwd (dirname file_path) file_path of
           Inl e \<Rightarrow> Inl e
         | Inr rel_path \<Rightarrow>
             if is_jekyll
             then Inr (table_row (jekyll_name file_path) (jekyll_link file_path) info)
             else Inr (table_row (basename file_path)
                         (replace_str '' '' ''%20'' rel_path) info)))"


section \<open>Splicer\<close>

subsection \<open>The replacement template of \<open>re.sub\<close>\<close>

text \<open>
  \<open>re.sub\<close> reads its replacement string as a template, before it looks for a match:
  a backslash starts an escape. The pattern of the splicer has no group, so the only group
  a template may name is group 0, the whole match, as \<open>\g<0>\<close>. A template is a list
  of characters and references to the match.
\<close>

datatype tpart = TChar char | TMatch

definition backslash :: char where
  "backslash = CHR 0x5C"

definition is_octdigit :: "char \<Rightarrow> bool" where
  "is_octdigit c = (let n = (of_char c :: nat) in 48 \<le> n \<and> n \<le> 55)"

definition is_ascii_letter :: "char \<Rightarrow> bool" where
  "is_ascii_letter c =
     (let n = (of_char c :: nat) in (65 \<le> n \<and> n \<le> 90) \<or> (97 \<le> n \<and> n \<le> 122))"

definition is_identifier :: "string \<Rightarrow> bool" where
  "is_identifier name =
     (case name of
        [] \<Rightarrow> False
      | c # cs \<Rightarrow> (is_ascii_letter c \<or> c = CHR ''_'')
                 \<and> list_all (\<lambda>x. is_ascii_letter x \<or> is_digit x \<or> x = CHR ''_'') cs)"

definition digit_val :: "char \<Rightarrow> nat" where
  "digit_val c = of_char c - 48"

definition octal_val :: "string \<Rightarrow> nat" where
  "octal_val ds = foldl (\<lambda>n d. 8 * n + digit_val d) 0 ds"

text \<open>The escapes that stand for one character: \<open>\a \b \f \n \r \t \v \\\<close>.\<close>

definition simple_escape :: "char \<Rightarrow> char option" where
  "simple_escape c =
     (if c = CHR ''a'' then Some (CHR 0x07)
      else if c = CHR ''b'' then Some (CHR 0x08)
      else if c = CHR ''f'' then Some (CHR 0x0C)
      else if c = CHR ''n'' then Some (CHR 0x0A)
      else if c = CHR ''r'' then Some (CHR 0x0D)
      else if c = CHR ''t'' then Some (CHR 0x09)
      else if c = CHR ''v'' then Some (CHR 0x0B)
      else if c = backslash then Some backslash
      else None)"

definition cons_part :: "tpart \<Rightarrow> error + tpart list \<Rightarrow> error + tpart list" where
  "cons_part x r = (case r of Inl e \<Rightarrow> Inl e | Inr xs \<Rightarrow> Inr (x # xs))"

text \<open>
  \<open>parse_template\<close> of CPython 3.12, for a pattern without groups. After a backslash:
  \<^item> \<open>g\<close> needs \<open><name>\<close>; a decimal name must be 0, another name is an unknown group;
  \<^item> \<open>0\<close> and up to two octal digits after it are an octal escape;
  \<^item> another digit starts an octal escape when three octal digits stand together (of value
    at most \<open>0o377\<close>), and a reference to a group that does not exist otherwise;
  \<^item> the one-character escapes give their character, another ASCII letter is an error,
    and anything else stays as it is, backslash included.
  A backslash at the end of the string is an error.
\<close>

function parse_template :: "string \<Rightarrow> error + tpart list" where
  "parse_template [] = Inr []"
| "parse_template (c # cs) =
     (if c \<noteq> backslash then cons_part (TChar c) (parse_template cs)
      else (case cs of
              [] \<Rightarrow> Inl ReError
            | d # ds \<Rightarrow>
                if d = CHR ''g'' then
                  (if \<not> prefix ''<'' ds then Inl ReError
                   else
                     let name = takeWhile (\<lambda>x. x \<noteq> CHR ''>'') (tl ds)
                     in if length name = length (tl ds) then Inl ReError
                        else if name = [] then Inl ReError
                        else if list_all is_digit name then
                          (if list_all (\<lambda>x. x = CHR ''0'') name
                           then cons_part TMatch (parse_template (drop (length name + 2) ds))
                           else Inl ReError)
                        else if is_identifier name then Inl IndexError
                        else Inl ReError)
                else if d = CHR ''0'' then
                  (let k = length (takeWhile is_octdigit (take 2 ds))
                   in cons_part (TChar (char_of (octal_val (take k ds))))
                        (parse_template (drop k ds)))
                else if is_digit d then
                  (if is_octdigit d \<and> length ds \<ge> 2 \<and> is_octdigit (ds ! 0) \<and> is_octdigit (ds ! 1)
                   then (if octal_val (d # take 2 ds) > 255 then Inl ReError
                         else cons_part (TChar (char_of (octal_val (d # take 2 ds))))
                                (parse_template (drop 2 ds)))
                   else Inl ReError)
                else
                  (case simple_escape d of
                     Some x \<Rightarrow> cons_part (TChar x) (parse_template ds)
                   | None \<Rightarrow>
                       if is_ascii_letter d then Inl ReError
                       else cons_part (TChar backslash)
                              (cons_part (TChar d) (parse_template ds)))))"
  by pat_completeness auto
termination
  by (relation "measure length") auto

text \<open>The text that replaces one match \<open>m\<close>.\<close>

definition expand_template :: "tpart list \<Rightarrow> string \<Rightarrow> string" where
  "expand_template t m = concat (map (\<lambda>x. case x of TChar c \<Rightarrow> [c] | TMatch \<Rightarrow> m) t)"

subsection \<open>Substitution\<close>

text \<open>
  The pattern is the start marker, \<open>.*?\<close> and the end marker, under \<open>re.DOTALL\<close>. Its
  leftmost match starts at the first start marker that has an end marker after it, and
  ends with the first such end marker. When the first start marker has no end marker after
  it, no later one has. Each match is replaced, and the search goes on behind it.
\<close>

function sub_all :: "tpart list \<Rightarrow> string \<Rightarrow> string" where
  "sub_all t s =
     (case find_sub START_MARKER s of
        None \<Rightarrow> s
      | Some i \<Rightarrow>
          (case find_sub END_MARKER (drop (i + length START_MARKER) s) of
             None \<Rightarrow> s
           | Some j \<Rightarrow>
               take i s
                 @ expand_template t
                     (take (length START_MARKER + j + length END_MARKER) (drop i s))
                 @ sub_all t
                     (drop (i + length START_MARKER + j + length END_MARKER) s)))"
  by pat_completeness auto
termination
proof (relation "measure (\<lambda>(t, s). length s)")
  show "wf (measure (\<lambda>(t, s). length s))" by simp
next
  fix t :: "tpart list" and s :: string and i j :: nat
  assume "find_sub START_MARKER s = Some i"
  have "s \<noteq> []"
  proof
    assume "s = []"
    with \<open>find_sub START_MARKER s = Some i\<close> show False
      by (simp add: START_MARKER_def)
  qed
  then show "((t, drop (i + length START_MARKER + j + length END_MARKER) s), (t, s))
               \<in> measure (\<lambda>(t, s). length s)"
    by (simp add: START_MARKER_def)
qed

declare sub_all.simps [simp del]

text \<open>\<open>re.sub(pattern, repl, content, flags=re.DOTALL)\<close>.\<close>

definition re_sub :: "string \<Rightarrow> string \<Rightarrow> error + string" where
  "re_sub repl content =
     (case parse_template repl of Inl e \<Rightarrow> Inl e | Inr t \<Rightarrow> Inr (sub_all t content))"

text \<open>The new content of the target: the section replaced, or appended.\<close>

definition splice :: "string \<Rightarrow> string \<Rightarrow> error + string" where
  "splice content recent_changes_content =
     (if contains START_MARKER content \<and> contains END_MARKER content
      then re_sub recent_changes_content content
      else Inr (content @ [CHR 0x0A, CHR 0x0A] @ recent_changes_content))"


text \<open>
  A fragment is plain when it has no backslash, so that the template stands for itself,
  and when the first end marker behind its start marker is its last line.
\<close>

definition plain_fragment :: "string \<Rightarrow> bool" where
  "plain_fragment F =
     (backslash \<notin> set F
      \<and> find_sub END_MARKER (drop (length START_MARKER) F)
          = Some (length F - length START_MARKER - length END_MARKER))"


section \<open>Files\<close>

text \<open>
  The working tree maps a key to what is there: a file whose bytes decode as UTF-8 text, a
  file whose bytes do not, or a directory. A key is a normalised path: relative to the
  working directory (\<open>docs/a.md\<close>), through the parents of the working directory
  (\<open>../x\<close>), or absolute (\<open>/x\<close>). The working directory (the empty key), its
  ancestors (\<open>..\<close>, \<open>../..\<close> and so on) and the root \<open>/\<close> are directories.
  Symbolic links, permissions and a second key for the same file are not part of the
  model.
\<close>

datatype node = File string | Undecodable | Directory

type_synonym tree = "string \<Rightarrow> node option"

definition up_only :: "string \<Rightarrow> bool" where
  "up_only key = (key \<noteq> [] \<and> list_all (\<lambda>c. c = ''..'') (split_sep CHR ''/'' key))"

definition is_dir :: "tree \<Rightarrow> string \<Rightarrow> bool" where
  "is_dir fs key = (key = [] \<or> key = ''/'' \<or> up_only key \<or> fs key = Some Directory)"

text \<open>The key of the parent of a directory, and of an entry of a directory.\<close>

definition parent_key :: "string \<Rightarrow> string" where
  "parent_key key =
     (if key = [] then ''..''
      else if key = ''/'' then ''/''
      else if up_only key then key @ ''/..''
      else if CHR ''/'' \<in> set key
      then (let d = take (after_last_sep key - 1) key in if d = [] then ''/'' else d)
      else [])"

definition child_key :: "string \<Rightarrow> string \<Rightarrow> string" where
  "child_key key name =
     (if key = [] then name else if key = ''/'' then ''/'' @ name else key @ ''/'' @ name)"

definition enter :: "string \<Rightarrow> string \<Rightarrow> string" where
  "enter key c =
     (if c = [] \<or> c = ''.'' then key
      else if c = ''..'' then parent_key key
      else child_key key c)"

text \<open>
  The resolution of a path, component by component. A component, also an empty one, a
  \<open>.\<close> or a \<open>..\<close>, is looked up in a directory: when the key reached so far is not a
  directory, the resolution fails with \<open>FileNotFoundError\<close> (nothing is there) or with
  \<open>NotADirectoryError\<close> (a file is there).
\<close>

definition no_directory :: "tree \<Rightarrow> string \<Rightarrow> error" where
  "no_directory fs key = (if fs key = None then FileNotFoundError else NotADirectoryError)"

fun walk :: "tree \<Rightarrow> string \<Rightarrow> string list \<Rightarrow> error + string" where
  "walk fs key [] = Inr key"
| "walk fs key (c # cs) =
     (if is_dir fs key then walk fs (enter key c) cs else Inl (no_directory fs key))"

definition start_key :: "string \<Rightarrow> string" where
  "start_key path = (if prefix ''/'' path then ''/'' else [])"

text \<open>The key that a path names; the empty path names nothing.\<close>

definition resolve :: "tree \<Rightarrow> string \<Rightarrow> error + string" where
  "resolve fs path =
     (if path = [] then Inl FileNotFoundError
      else walk fs (start_key path) (split_sep CHR ''/'' path))"

text \<open>\<open>os.path.exists\<close> and \<open>os.path.isdir\<close>.\<close>

definition path_exists :: "tree \<Rightarrow> string \<Rightarrow> bool" where
  "path_exists fs path =
     (case resolve fs path of Inl e \<Rightarrow> False | Inr key \<Rightarrow> is_dir fs key \<or> fs key \<noteq> None)"

definition path_isdir :: "tree \<Rightarrow> string \<Rightarrow> bool" where
  "path_isdir fs path = (case resolve fs path of Inl e \<Rightarrow> False | Inr key \<Rightarrow> is_dir fs key)"

text \<open>
  Reading in text mode translates the line ends \<open>CR LF\<close> and \<open>CR\<close> to \<open>LF\<close>.
\<close>

fun universal_newlines :: "string \<Rightarrow> string" where
  "universal_newlines [] = []"
| "universal_newlines [c] = [if c = CHR 0x0D then CHR 0x0A else c]"
| "universal_newlines (c # d # cs) =
     (if c = CHR 0x0D \<and> d = CHR 0x0A then CHR 0x0A # universal_newlines cs
      else if c = CHR 0x0D then CHR 0x0A # universal_newlines (d # cs)
      else c # universal_newlines (d # cs))"

text \<open>\<open>open(path, 'r', encoding='utf-8')\<close> and \<open>file.read()\<close>.\<close>

definition read_text :: "tree \<Rightarrow> string \<Rightarrow> error + string" where
  "read_text fs path =
     (case resolve fs path of
        Inl e \<Rightarrow> Inl e
      | Inr key \<Rightarrow>
          if is_dir fs key then Inl IsADirectoryError
          else (case fs key of
                  None \<Rightarrow> Inl FileNotFoundError
                | Some (File text) \<Rightarrow> Inr (universal_newlines text)
                | Some Undecodable \<Rightarrow> Inl UnicodeDecodeError
                | Some Directory \<Rightarrow> Inl IsADirectoryError))"

text \<open>
  A path that is opened for writing or that is to be created is resolved up to its last
  component; slashes at its end are set aside first.
\<close>

definition strip_trailing_empty :: "string list \<Rightarrow> string list" where
  "strip_trailing_empty cs = rev (dropWhile (\<lambda>c. c = []) (rev cs))"

definition path_components :: "string \<Rightarrow> string list" where
  "path_components path = strip_trailing_empty (split_sep CHR ''/'' path)"

text \<open>
  \<open>open(path, 'w', encoding='utf-8')\<close> and \<open>file.write(text)\<close>: the file is created
  in its directory, or overwritten. A path that ends with a slash or with \<open>.\<close> or
  \<open>..\<close>, or that names a directory, gives \<open>IsADirectoryError\<close>. On POSIX, writing in
  text mode leaves the line ends as they are.
\<close>

definition write_text :: "tree \<Rightarrow> string \<Rightarrow> string \<Rightarrow> error + tree" where
  "write_text fs path text =
     (if path = [] then Inl FileNotFoundError
      else if path_components path = [] then Inl IsADirectoryError
      else (case walk fs (start_key path) (butlast (path_components path)) of
              Inl e \<Rightarrow> Inl e
            | Inr dir \<Rightarrow>
                if \<not> is_dir fs dir then Inl (no_directory fs dir)
                else if last (path_components path) = ''.''
                        \<or> last (path_components path) = ''..'' \<or> suffix ''/'' path
                then Inl IsADirectoryError
                else if is_dir fs (child_key dir (last (path_components path)))
                then Inl IsADirectoryError
                else Inr (fs(child_key dir (last (path_components path)) \<mapsto> File text))))"

text \<open>\<open>os.mkdir(path)\<close>.\<close>

definition mkdir :: "tree \<Rightarrow> string \<Rightarrow> error + tree" where
  "mkdir fs path =
     (if path = [] then Inl FileNotFoundError
      else if path_components path = [] then Inl FileExistsError
      else (case walk fs (start_key path) (butlast (path_components path)) of
              Inl e \<Rightarrow> Inl e
            | Inr dir \<Rightarrow>
                if \<not> is_dir fs dir then Inl (no_directory fs dir)
                else if last (path_components path) = ''.''
                        \<or> last (path_components path) = ''..''
                then Inl FileExistsError
                else if is_dir fs (child_key dir (last (path_components path)))
                        \<or> fs (child_key dir (last (path_components path))) \<noteq> None
                then Inl FileExistsError
                else Inr (fs(child_key dir (last (path_components path)) \<mapsto> Directory))))"

text \<open>
  \<open>os.makedirs(name, exist_ok=True)\<close>. \<open>os.path.split\<close> gives the head and the tail
  of the name, that is its \<open>dirname\<close> and its \<open>basename\<close>, and is applied once more to
  the head when the tail is empty. A head that does not exist is created first, a
  \<open>FileExistsError\<close> of that being passed over; then the name is created, unless its
  tail is \<open>.\<close>, and an exception of \<open>mkdir\<close> is passed over when the name is a
  directory. The result is the exception that leaves the call, if any, and the tree.
\<close>

definition makedirs_head :: "string \<Rightarrow> string" where
  "makedirs_head name = (if basename name = [] then dirname (dirname name) else dirname name)"

definition makedirs_tail :: "string \<Rightarrow> string" where
  "makedirs_tail name = (if basename name = [] then basename (dirname name) else basename name)"

function makedirs :: "tree \<Rightarrow> string \<Rightarrow> error option \<times> tree" where
  "makedirs fs name =
     (case (if makedirs_head name \<noteq> [] \<and> makedirs_tail name \<noteq> []
               \<and> \<not> path_exists fs (makedirs_head name)
            then (case makedirs fs (makedirs_head name) of
                    (None, fs1) \<Rightarrow> (None, fs1)
                  | (Some e, fs1) \<Rightarrow>
                      if e = FileExistsError then (None, fs1) else (Some e, fs1))
            else (None, fs)) of
        (Some e, fs1) \<Rightarrow> (Some e, fs1)
      | (None, fs1) \<Rightarrow>
          if makedirs_tail name = ''.'' then (None, fs1)
          else (case mkdir fs1 name of
                  Inl e \<Rightarrow> if path_isdir fs1 name then (None, fs1) else (Some e, fs1)
                | Inr fs2 \<Rightarrow> (None, fs2)))"
  by pat_completeness auto
termination
proof (relation "measure (\<lambda>(fs, name). length name)")
  show "wf (measure (\<lambda>(fs, name). length name))" by simp
next
  fix fs :: tree and name :: string
  assume "makedirs_head name \<noteq> [] \<and> makedirs_tail name \<noteq> []
            \<and> \<not> path_exists fs (makedirs_head name)"
  then have tail: "makedirs_tail name \<noteq> []" by simp
  have le: "length (dirname p) \<le> length p" for p
    by (simp add: dirname_def Let_def rstrip_char_def after_last_sep_def
          order.trans [OF length_dropWhile_le])
  have lt: "length (dirname p) < length p" if "basename p \<noteq> []" for p
  proof -
    from that have "after_last_sep p < length p" by (simp add: basename_def)
    moreover have "length (dirname p) \<le> after_last_sep p"
      by (simp add: dirname_def Let_def rstrip_char_def order.trans [OF length_dropWhile_le])
    ultimately show ?thesis by simp
  qed
  have "length (makedirs_head name) < length name"
  proof (cases "basename name = []")
    case True
    with tail have "basename (dirname name) \<noteq> []" by (simp add: makedirs_tail_def)
    then have "length (dirname (dirname name)) < length (dirname name)" by (rule lt)
    with le [of name] True show ?thesis by (simp add: makedirs_head_def)
  next
    case False
    then show ?thesis by (simp add: makedirs_head_def lt)
  qed
  then show "((fs, makedirs_head name), (fs, name)) \<in> measure (\<lambda>(fs, name). length name)"
    by simp
qed

declare makedirs.simps [simp del]


subsection \<open>\<open>update_readme\<close> of \<open>update_readmes.py\<close>\<close>

text \<open>The basic README that stands for a missing target.\<close>

definition readme_placeholder :: "string \<Rightarrow> string" where
  "readme_placeholder readme_path =
     (let directory_name = (if dirname readme_path \<noteq> [] then dirname readme_path else ''Root'')
      in ''# '' @ directory_name @ '' Directory'' @ [CHR 0x0A, CHR 0x0A])"

text \<open>
  The content read from the target. Of the exceptions of the read only
  \<open>FileNotFoundError\<close> is caught: it gives the placeholder.
\<close>

definition readme_content :: "tree \<Rightarrow> string \<Rightarrow> error + string" where
  "readme_content fs readme_path =
     (case read_text fs readme_path of
        Inr content \<Rightarrow> Inr content
      | Inl e \<Rightarrow> if e = FileNotFoundError then Inr (readme_placeholder readme_path) else Inl e)"

text \<open>
  The new content of the target, from its old content. \<open>cwd\<close> is the working directory
  of the run and \<open>now\<close> what \<open>datetime.datetime.now()\<close> returns.
\<close>

definition readme_new_content ::
  "string \<Rightarrow> datetime \<Rightarrow> string \<Rightarrow> info dict \<Rightarrow> string \<Rightarrow> error + string" where
  "readme_new_content cwd now readme_path all_file_updates content =
     (case fragment (readme_row cwd readme_path) now
             (get_directory_changes readme_path all_file_updates) of
        Inl e \<Rightarrow> Inl e
      | Inr recent_changes_content \<Rightarrow> splice content recent_changes_content)"

definition update_readme ::
  "string \<Rightarrow> datetime \<Rightarrow> tree \<Rightarrow> string \<Rightarrow> info dict \<Rightarrow> error + tree" where
  "update_readme cwd now fs readme_path all_file_updates =
     (case readme_content fs readme_path of
        Inl e \<Rightarrow> Inl e
      | Inr content \<Rightarrow>
          (case readme_new_content cwd now readme_path all_file_updates content of
             Inl e \<Rightarrow> Inl e
           | Inr new_content \<Rightarrow> write_text fs readme_path new_content))"


subsection \<open>\<open>update_file\<close> of \<open>update_jekyll_readmes.py\<close>\<close>

text \<open>
  \<open>is_jekyll_file\<close>: the path lies in a Jekyll directory, or the first 500 characters of
  the file start, whitespace apart, with \<open>---\<close>. Any exception of the read gives \<open>False\<close>.
\<close>

definition is_jekyll_file :: "tree \<Rightarrow> string \<Rightarrow> bool" where
  "is_jekyll_file fs file_path =
     (list_ex (\<lambda>jekyll_dir. prefix (jekyll_dir @ ''/'') file_path) JEKYLL_DIRS
      \<or> (case read_text fs file_path of
            Inr content \<Rightarrow> prefix ''---'' (strip (take 500 content))
          | Inl e \<Rightarrow> False))"

text \<open>The basic file that stands for a missing target; an index file gets front matter.\<close>

definition file_placeholder :: "string \<Rightarrow> string" where
  "file_placeholder file_path =
     (let directory_name = (if dirname file_path \<noteq> [] then dirname file_path else ''Root'')
      in if lower (basename file_path) = ''index.md''
         then ''---'' @ [CHR 0x0A] @ ''layout: default'' @ [CHR 0x0A]
              @ ''title: '' @ capitalize directory_name @ '' Directory''
              @ [CHR 0x0A] @ ''---'' @ [CHR 0x0A, CHR 0x0A]
              @ ''# '' @ capitalize directory_name @ '' Directory'' @ [CHR 0x0A, CHR 0x0A]
         else ''# '' @ capitalize directory_name @ '' Directory'' @ [CHR 0x0A, CHR 0x0A])"

definition file_content :: "tree \<Rightarrow> string \<Rightarrow> error + string" where
  "file_content fs file_path =
     (case read_text fs file_path of
        Inr content \<Rightarrow> Inr content
      | Inl e \<Rightarrow> if e = FileNotFoundError then Inr (file_placeholder file_path) else Inl e)"

definition file_new_content ::
  "string \<Rightarrow> datetime \<Rightarrow> bool \<Rightarrow> string \<Rightarrow> info dict \<Rightarrow> string \<Rightarrow> error + string" where
  "file_new_content cwd now is_jekyll file_path all_file_updates content =
     (case fragment (jekyll_row cwd is_jekyll) now
             (get_directory_changes file_path all_file_updates) of
        Inl e \<Rightarrow> Inl e
      | Inr recent_changes_content \<Rightarrow> splice content recent_changes_content)"

text \<open>
  After the loop over the scoped entries the name \<open>file_path\<close> holds the path of the
  last entry, when there is one: that is the path \<open>update_file\<close> creates the directory
  of and writes to.
\<close>

definition path_after_loop :: "string \<Rightarrow> (string \<times> info) list \<Rightarrow> string" where
  "path_after_loop file_path recent_files =
     (if recent_files = [] then file_path else fst (last recent_files))"

definition update_file ::
  "string \<Rightarrow> datetime \<Rightarrow> tree \<Rightarrow> string \<Rightarrow> info dict \<Rightarrow> error + tree" where
  "update_file cwd now fs file_path all_file_updates =
     (let is_jekyll = is_jekyll_file fs file_path
      in case file_content fs file_path of
           Inl e \<Rightarrow> Inl e
         | Inr content \<Rightarrow>
             (case file_new_content cwd now is_jekyll file_path all_file_updates content of
                Inl e \<Rightarrow> Inl e
              | Inr new_content \<Rightarrow>
                  (let file_path' = path_after_loop file_path
                                      (get_directory_changes file_path all_file_updates);
                       d = (if dirname file_path' \<noteq> [] then dirname file_path' else ''.'')
                   in case makedirs fs d of
                        (Some e, fs') \<Rightarrow> Inl e
                      | (None, fs') \<Rightarrow> write_text fs' file_path' new_content)))"


section \<open>Example data\<close>

text \<open>A commit of January 2024, for the day \<open>d\<close> of the month.\<close>

definition example_commit :: "int \<Rightarrow> string \<Rightarrow> string list \<Rightarrow> commit" where
  "example_commit d msg fs =
     \<lparr>author_date = \<lparr>year = 2024, month = 1, day = d, hour = 0, minute = 0, second = 0\<rparr>,
      message = msg, html_url = ''u'', author_name = ''A'', files = fs\<rparr>"

text \<open>The time of a run, a change record and a working directory.\<close>

definition example_now :: datetime where
  "example_now = \<lparr>year = 2024, month = 1, day = 3, hour = 12, minute = 0, second = 0\<rparr>"

definition example_info :: info where
  "example_info =
     \<lparr>date = \<lparr>year = 2024, month = 1, day = 2, hour = 3, minute = 4, second = 5\<rparr>,
      commit_message = ''fix bug'', commit_url = ''u'', author = ''A''\<rparr>"

definition example_cwd :: string where
  "example_cwd = ''/home/runner/work/repo/repo''"

text \<open>A working tree with a README and a source file under \<open>docs\<close>.\<close>

definition example_tree :: tree where
  "example_tree =
     map_of [(''docs'', Directory), (''docs/sub'', Directory),
             (''docs/readme.md'', File (''# Docs'' @ [CHR 0x0A])),
             (''docs/sub/file.py'', File (''print(1)'' @ [CHR 0x0A]))]"

definition example_empty_fragment :: string where
  "example_empty_fragment = fragment_head example_now @ no_changes @ [CHR 0x0A] @ END_MARKER"


section \<open>Dictionaries\<close>

lemma dict_set_keys: "fst ` set (dict_set d k v) = insert k (fst ` set d)"
  by (induction d) (auto split: if_splits simp: rev_image_eqI)

lemma map_of_dict_set: "map_of (dict_set d k v) = (map_of d)(k \<mapsto> v)"
  by (induction d) (auto simp: fun_eq_iff)

lemma distinct_dict_set:
  "distinct (map fst d) \<Longrightarrow> distinct (map fst (dict_set d k v))"
proof (induction d)
  case Nil
  then show ?case by simp
next
  case (Cons e d)
  obtain k' v' where e: "e = (k', v')" by (cases e)
  show ?case
  proof (cases "k' = k")
    case True
    with Cons.prems e show ?thesis by simp
  next
    case False
    have "k' \<notin> fst ` set (dict_set d k v)"
      using Cons.prems e False by (simp add: dict_set_keys)
    with Cons e False show ?thesis by simp
  qed
qed


section \<open>The directory scoper\<close>

lemma scope_fold_keys:
  "fst ` set (foldl (scope_step directory) acc xs)
     \<subseteq> fst ` set acc \<union> {k. prefix (directory_prefix directory) k \<and> k \<noteq> directory}"
proof (induction xs arbitrary: acc)
  case Nil
  then show ?case by simp
next
  case (Cons x xs)
  obtain k v where x: "x = (k, v)" by (cases x)
  have "fst ` set (scope_step directory acc x)
          \<subseteq> fst ` set acc \<union> {k. prefix (directory_prefix directory) k \<and> k \<noteq> directory}"
    unfolding x scope_step_def by (auto simp: dict_set_keys)
  with Cons.IH [of "scope_step directory acc x"] show ?case by auto
qed

lemma set_sorted_reverse: "set (sorted_reverse key xs) = set xs"
  by (simp add: sorted_reverse_def)

lemma sorted_reverse_descending:
  "sorted_wrt (\<lambda>a b. key b \<le> key a) (sorted_reverse key xs)"
proof -
  have "sorted (map key (sort_key key (rev xs)))" by (rule sorted_sort_key)
  then have "sorted_wrt (\<lambda>a b. key a \<le> key b) (sort_key key (rev xs))"
    by (simp add: sorted_map)
  then show ?thesis
    by (simp add: sorted_reverse_def sorted_wrt_rev)
qed

lemma get_directory_changes_fold:
  "get_directory_changes directory cm =
     take NUM_FILES (sorted_reverse (\<lambda>x. dt_key (date (snd x)))
       (foldl (scope_step directory) [] cm))"
  by (simp add: get_directory_changes_def)

lemma scoped_keys:
  assumes "(k, v) \<in> set (get_directory_changes directory cm)"
  shows "prefix (directory_prefix directory) k \<and> k \<noteq> directory"
proof -
  from assms have "(k, v) \<in> set (foldl (scope_step directory) [] cm)"
    unfolding get_directory_changes_fold
    by (auto dest: in_set_takeD simp: set_sorted_reverse)
  then have "k \<in> fst ` set (foldl (scope_step directory) [] cm)"
    by force
  with scope_fold_keys [of directory "[]" cm] show ?thesis by auto
qed

text \<open>
  C3. For every target path and every change map, the result of the directory scoper has
  no entry whose path is the target path, has at most 10 entries, and lists its entries
  in non-increasing order of their timestamps.
\<close>

theorem scoper_excludes_target_caps_and_orders:
  "directory \<notin> fst ` set (get_directory_changes directory all_file_updates)
   \<and> length (get_directory_changes directory all_file_updates) \<le> 10
   \<and> sorted_wrt (\<lambda>a b. dt_key (date (snd b)) \<le> dt_key (date (snd a)))
       (get_directory_changes directory all_file_updates)"
proof (intro conjI)
  show "directory \<notin> fst ` set (get_directory_changes directory all_file_updates)"
    using scoped_keys [of directory _ directory all_file_updates] by auto
  show "length (get_directory_changes directory all_file_updates) \<le> 10"
    by (simp add: get_directory_changes_fold NUM_FILES_def)
  show "sorted_wrt (\<lambda>a b. dt_key (date (snd b)) \<le> dt_key (date (snd a)))
          (get_directory_changes directory all_file_updates)"
    unfolding get_directory_changes_fold
    by (rule sorted_wrt_take) (rule sorted_reverse_descending)
qed


section \<open>The change aggregator\<close>

lemma date_record_of [simp]: "date (record_of c) = author_date c"
  by (simp add: record_of_def)

lemma dict_get_dict_set:
  "dict_get (dict_set d k v) p = (if p = k then Some v else dict_get d p)"
  by (simp add: dict_get_def map_of_dict_set)

lemma dict_get_track_file:
  "\<not> should_exclude pats p \<Longrightarrow>
   dict_get (track_file pats c d f) p = (if f = p then observe c (dict_get d p) else dict_get d p)"
  by (auto simp: track_file_def observe_def dict_get_dict_set split: option.splits)

lemma dict_get_track_file_excluded:
  "should_exclude pats p \<Longrightarrow> dict_get (track_file pats c d f) p = dict_get d p"
  by (auto simp: track_file_def dict_get_dict_set split: option.splits)

lemma observe_twice: "observe c (observe c r) = observe c r"
  by (auto simp: observe_def split: option.splits)

lemma dict_get_commit_files:
  "\<not> should_exclude pats p \<Longrightarrow>
   dict_get (foldl (track_file pats c) d fs) p =
     (if p \<in> set fs then observe c (dict_get d p) else dict_get d p)"
proof (induction fs arbitrary: d)
  case Nil
  then show ?case by simp
next
  case (Cons f fs)
  then show ?case
    by (simp add: dict_get_track_file observe_twice)
qed

lemma dict_get_commit_files_excluded:
  "should_exclude pats p \<Longrightarrow> dict_get (foldl (track_file pats c) d fs) p = dict_get d p"
  by (induction fs arbitrary: d) (simp_all add: dict_get_track_file_excluded)

lemma dict_get_commits:
  "\<not> should_exclude pats p \<Longrightarrow>
   dict_get (foldl (\<lambda>d c. foldl (track_file pats c) d (files c)) d cs) p
     = seen p (dict_get d p) cs"
proof (induction cs arbitrary: d)
  case Nil
  then show ?case by (simp add: seen_def)
next
  case (Cons c cs)
  then show ?case
    by (simp add: seen_def dict_get_commit_files)
qed

lemma dict_get_commits_excluded:
  "should_exclude pats p \<Longrightarrow>
   dict_get (foldl (\<lambda>d c. foldl (track_file pats c) d (files c)) d cs) p = dict_get d p"
  by (induction cs arbitrary: d) (simp_all add: dict_get_commit_files_excluded)

lemma dict_get_repo_changes:
  "dict_get (get_repo_changes pats commits) p =
     (if should_exclude pats p then None else seen p None (take 100 commits))"
  by (simp add: get_repo_changes_def dict_get_commits dict_get_commits_excluded)
     (simp add: dict_get_def)

lemma distinct_track_file:
  "distinct (map fst d) \<Longrightarrow> distinct (map fst (track_file pats c d f))"
  by (simp add: track_file_def distinct_dict_set)

lemma distinct_commit_files:
  "distinct (map fst d) \<Longrightarrow> distinct (map fst (foldl (track_file pats c) d fs))"
  by (induction fs arbitrary: d) (simp_all add: distinct_track_file)

lemma distinct_commits:
  "distinct (map fst d) \<Longrightarrow>
   distinct (map fst (foldl (\<lambda>d c. foldl (track_file pats c) d (files c)) d cs))"
  by (induction cs arbitrary: d) (simp_all add: distinct_commit_files)

lemma distinct_repo_changes: "distinct (map fst (get_repo_changes pats commits))"
  by (simp add: get_repo_changes_def distinct_commits)

lemma one_entry:
  "distinct (map fst d) \<Longrightarrow> map_of d p = Some r \<Longrightarrow> filter (\<lambda>e. fst e = p) d = [(p, r)]"
proof (induction d)
  case Nil
  then show ?case by simp
next
  case (Cons e d)
  obtain k v where e: "e = (k, v)" by (cases e)
  show ?case
  proof (cases "k = p")
    case True
    have "filter (\<lambda>e. fst e = p) d = []"
      using Cons.prems(1) e True by (auto simp: filter_empty_conv)
    with Cons.prems e True show ?thesis by simp
  next
    case False
    with Cons e show ?thesis by simp
  qed
qed

lemma seen_snoc:
  "seen p r (cs @ [c]) = (if p \<in> set (files c) then observe c (seen p r cs) else seen p r cs)"
  by (simp add: seen_def)

lemma seen_Cons:
  "seen p r (c # cs) = seen p (if p \<in> set (files c) then observe c r else r) cs"
  by (simp add: seen_def)

lemma seen_append: "seen p r (cs @ ds) = seen p (seen p r cs) ds"
  by (simp add: seen_def)

lemma seen_Nil [simp]: "seen p r [] = r"
  by (simp add: seen_def)

text \<open>From no record on: none when no commit touches the path; otherwise the record of
  a commit that touches it, with a date that no touching commit exceeds.\<close>

lemma seen_None:
  "(case seen p None cs of
      None \<Rightarrow> \<forall>c \<in> set cs. p \<notin> set (files c)
    | Some r \<Rightarrow> (\<exists>c \<in> set cs. p \<in> set (files c) \<and> r = record_of c)
               \<and> (\<forall>c \<in> set cs. p \<in> set (files c) \<longrightarrow> dt_key (author_date c) \<le> dt_key (date r)))"
proof (induction cs rule: rev_induct)
  case Nil
  then show ?case by simp
next
  case (snoc c cs)
  show ?case
  proof (cases "p \<in> set (files c)")
    case False
    with snoc show ?thesis
      by (auto simp: seen_snoc split: option.splits)
  next
    case True
    show ?thesis
    proof (cases "seen p None cs")
      case None
      with snoc True show ?thesis
        by (auto simp: seen_snoc observe_def)
    next
      case (Some old)
      with snoc True show ?thesis
        by (auto simp: seen_snoc observe_def split: if_splits)
    qed
  qed
qed

lemma seen_keeps:
  "\<forall>c \<in> set cs. p \<in> set (files c) \<longrightarrow> dt_key (author_date c) \<le> dt_key (date r) \<Longrightarrow>
   seen p (Some r) cs = Some r"
  by (induction cs) (auto simp: seen_Cons observe_def)

lemma seen_first_latest:
  assumes touch: "p \<in> set (files c)"
    and before: "\<forall>c' \<in> set pre. p \<in> set (files c') \<longrightarrow> dt_key (author_date c') < dt_key (author_date c)"
    and after: "\<forall>c' \<in> set post. p \<in> set (files c') \<longrightarrow> dt_key (author_date c') \<le> dt_key (author_date c)"
  shows "seen p None (pre @ c # post) = Some (record_of c)"
proof -
  have "observe c (seen p None pre) = Some (record_of c)"
  proof (cases "seen p None pre")
    case None
    then show ?thesis by (simp add: observe_def)
  next
    case (Some old)
    with seen_None [where p = p and cs = pre] obtain c' where "c' \<in> set pre" "p \<in> set (files c')" "old = record_of c'"
      by auto
    with before have "dt_key (date old) < dt_key (author_date c)" by simp
    with Some show ?thesis by (simp add: observe_def)
  qed
  then have "seen p None (pre @ [c]) = Some (record_of c)"
    using touch by (simp add: seen_snoc)
  moreover have "seen p (Some (record_of c)) post = Some (record_of c)"
    using after by (intro seen_keeps) simp
  ultimately show ?thesis
    using seen_append [of p None "pre @ [c]" post] by simp
qed

text \<open>
  C4. When a commit among those the aggregator reads (the first 100 of the listing)
  touches a path that is not excluded, the change map holds exactly one record for the
  path; it is the record of a commit that touches the path, no commit that touches the
  path has a later author date, and so it is never the record of a commit at \<open>t1\<close>
  when another commit touches the path at a later \<open>t2\<close>.
\<close>

theorem aggregator_keeps_most_recent:
  assumes "\<not> should_exclude patterns p"
    and "c \<in> set (take 100 commits)"
    and "p \<in> set (files c)"
  shows "\<exists>r. filter (\<lambda>e. fst e = p) (get_repo_changes patterns commits) = [(p, r)]
           \<and> (\<exists>c' \<in> set (take 100 commits). p \<in> set (files c') \<and> r = record_of c')
           \<and> (\<forall>c' \<in> set (take 100 commits). p \<in> set (files c') \<longrightarrow>
                 dt_key (author_date c') \<le> dt_key (date r))
           \<and> (\<forall>c1 \<in> set (take 100 commits). \<forall>c2 \<in> set (take 100 commits).
                 p \<in> set (files c1) \<and> p \<in> set (files c2)
                 \<and> dt_key (author_date c1) < dt_key (author_date c2) \<longrightarrow> r \<noteq> record_of c1)"
proof -
  let ?cs = "take 100 commits"
  have get: "dict_get (get_repo_changes patterns commits) p = seen p None ?cs"
    using assms(1) by (simp add: dict_get_repo_changes)
  from seen_None [where p = p and cs = ?cs] assms(2,3)
  obtain r where r: "seen p None ?cs = Some r"
    and mem: "\<exists>c' \<in> set ?cs. p \<in> set (files c') \<and> r = record_of c'"
    and latest: "\<forall>c' \<in> set ?cs. p \<in> set (files c') \<longrightarrow> dt_key (author_date c') \<le> dt_key (date r)"
    by (cases "seen p None ?cs") auto
  have "map_of (get_repo_changes patterns commits) p = Some r"
    using get r by (simp add: dict_get_def)
  then have one: "filter (\<lambda>e. fst e = p) (get_repo_changes patterns commits) = [(p, r)]"
    by (rule one_entry [OF distinct_repo_changes])
  have "r \<noteq> record_of c1"
    if "c1 \<in> set ?cs" "c2 \<in> set ?cs" "p \<in> set (files c2)"
      "dt_key (author_date c1) < dt_key (author_date c2)" for c1 c2
  proof
    assume "r = record_of c1"
    then have "dt_key (date r) = dt_key (author_date c1)" by simp
    moreover from latest that have "dt_key (author_date c2) \<le> dt_key (date r)" by blast
    ultimately show False using that(4) by simp
  qed
  with one mem latest show ?thesis by blast
qed

theorem aggregator_keeps_most_recent_witness:
  "filter (\<lambda>e. fst e = ''src/a.py'')
     (get_repo_changes EXCLUDE_PATTERNS
        [example_commit 1 ''first'' [''src/a.py''], example_commit 2 ''second'' [''src/a.py'']])
   = [(''src/a.py'', record_of (example_commit 2 ''second'' [''src/a.py'']))]"
proof -
  let ?c1 = "example_commit 1 ''first'' [''src/a.py'']"
  let ?c2 = "example_commit 2 ''second'' [''src/a.py'']"
  have h1: "\<not> should_exclude EXCLUDE_PATTERNS ''src/a.py''"
    by (simp add: should_exclude_def EXCLUDE_PATTERNS_def)
  have h2: "?c1 \<in> set (take 100 [?c1, ?c2])" by simp
  have h3: "''src/a.py'' \<in> set (files ?c1)" by (simp add: example_commit_def)
  from aggregator_keeps_most_recent [OF h1 h2 h3]
  obtain r where one: "filter (\<lambda>e. fst e = ''src/a.py'')
                         (get_repo_changes EXCLUDE_PATTERNS [?c1, ?c2]) = [(''src/a.py'', r)]"
    and mem: "\<exists>c' \<in> set (take 100 [?c1, ?c2]). ''src/a.py'' \<in> set (files c') \<and> r = record_of c'"
    and old: "\<forall>c1 \<in> set (take 100 [?c1, ?c2]). \<forall>c2 \<in> set (take 100 [?c1, ?c2]).
                 ''src/a.py'' \<in> set (files c1) \<and> ''src/a.py'' \<in> set (files c2)
                 \<and> dt_key (author_date c1) < dt_key (author_date c2) \<longrightarrow> r \<noteq> record_of c1"
    by blast
  have "dt_key (author_date ?c1) < dt_key (author_date ?c2)"
    by (simp add: example_commit_def dt_key_def)
  with old have "r \<noteq> record_of ?c1"
    by (simp add: example_commit_def)
  with mem have "r = record_of ?c2" by auto
  with one show ?thesis by simp
qed

text \<open>
  C10. When two commits that the aggregator reads touch the same path, which is not
  excluded, at the same author date, that date being the latest for the path and the
  first of the two being the first commit of the listing with that date, the change map
  holds the record of the first of the two: a later commit of equal date does not
  replace it.
\<close>

theorem aggregator_tie_keeps_first:
  assumes "\<not> should_exclude patterns p"
    and "take 100 commits = earlier @ c1 # between @ c2 # later"
    and "p \<in> set (files c1)"
    and "p \<in> set (files c2)"
    and "author_date c1 = author_date c2"
    and "\<forall>c \<in> set earlier. p \<in> set (files c) \<longrightarrow>
           dt_key (author_date c) < dt_key (author_date c1)"
    and "\<forall>c \<in> set (between @ later). p \<in> set (files c) \<longrightarrow>
           dt_key (author_date c) \<le> dt_key (author_date c1)"
  shows "dict_get (get_repo_changes patterns commits) p = Some (record_of c1)"
proof -
  have "\<forall>c \<in> set (between @ c2 # later). p \<in> set (files c) \<longrightarrow>
          dt_key (author_date c) \<le> dt_key (author_date c1)"
    using assms(5,7) by auto
  with assms(3,6) have "seen p None (earlier @ c1 # between @ c2 # later) = Some (record_of c1)"
    by (intro seen_first_latest) auto
  with assms(1,2) show ?thesis
    by (simp add: dict_get_repo_changes)
qed

theorem aggregator_tie_keeps_first_witness:
  "dict_get
     (get_repo_changes EXCLUDE_PATTERNS
        [example_commit 2 ''listed first'' [''src/a.py''],
         example_commit 2 ''listed second'' [''src/a.py'']])
     ''src/a.py''
   = Some (record_of (example_commit 2 ''listed first'' [''src/a.py'']))"
proof -
  let ?c1 = "example_commit 2 ''listed first'' [''src/a.py'']"
  let ?c2 = "example_commit 2 ''listed second'' [''src/a.py'']"
  have h1: "\<not> should_exclude EXCLUDE_PATTERNS ''src/a.py''"
    by (simp add: should_exclude_def EXCLUDE_PATTERNS_def)
  have h2: "take 100 [?c1, ?c2] = [] @ ?c1 # [] @ ?c2 # []" by simp
  have h3: "''src/a.py'' \<in> set (files ?c1)" by (simp add: example_commit_def)
  have h4: "''src/a.py'' \<in> set (files ?c2)" by (simp add: example_commit_def)
  have h5: "author_date ?c1 = author_date ?c2" by (simp add: example_commit_def)
  show ?thesis
    by (rule aggregator_tie_keeps_first [OF h1 h2 h3 h4 h5]) simp_all
qed


section \<open>Occurrences of a substring\<close>

lemma find_sub_Some_prefix:
  "find_sub pat s = Some i \<Longrightarrow> prefix pat (drop i s) \<and> i \<le> length s"
proof (induction s arbitrary: i)
  case Nil
  then show ?case by (simp split: if_splits)
next
  case (Cons c cs)
  show ?case
  proof (cases "prefix pat (c # cs)")
    case True
    with Cons.prems show ?thesis by simp
  next
    case False
    with Cons.prems obtain j where "find_sub pat cs = Some j" "i = Suc j" by auto
    with Cons.IH show ?thesis by simp
  qed
qed

lemma find_sub_Some_first:
  "find_sub pat s = Some i \<Longrightarrow> j < i \<Longrightarrow> \<not> prefix pat (drop j s)"
proof (induction s arbitrary: i j)
  case Nil
  then show ?case by (simp split: if_splits)
next
  case (Cons c cs)
  show ?case
  proof (cases "prefix pat (c # cs)")
    case True
    with Cons.prems show ?thesis by simp
  next
    case False
    with Cons.prems obtain k where k: "find_sub pat cs = Some k" "i = Suc k" by auto
    show ?thesis
    proof (cases j)
      case 0
      with False show ?thesis by simp
    next
      case (Suc j')
      with Cons.prems k have "j' < k" by simp
      with Cons.IH k Suc show ?thesis by simp
    qed
  qed
qed

lemma find_sub_SomeI:
  "prefix pat (drop i s) \<Longrightarrow> i \<le> length s \<Longrightarrow> (\<And>j. j < i \<Longrightarrow> \<not> prefix pat (drop j s))
   \<Longrightarrow> find_sub pat s = Some i"
proof (induction s arbitrary: i)
  case Nil
  then show ?case by simp
next
  case (Cons c cs)
  show ?case
  proof (cases i)
    case 0
    with Cons.prems show ?thesis by simp
  next
    case (Suc i')
    have "\<not> prefix pat (c # cs)" using Cons.prems(3) [of 0] Suc by simp
    moreover have "find_sub pat cs = Some i'"
    proof (rule Cons.IH)
      show "prefix pat (drop i' cs)" using Cons.prems(1) Suc by simp
      show "i' \<le> length cs" using Cons.prems(2) Suc by simp
      show "\<not> prefix pat (drop j cs)" if "j < i'" for j
        using Cons.prems(3) [of "Suc j"] that Suc by simp
    qed
    ultimately show ?thesis using Suc by simp
  qed
qed

lemma find_sub_None:
  "find_sub pat s = None \<Longrightarrow> i \<le> length s \<Longrightarrow> \<not> prefix pat (drop i s)"
proof (induction s arbitrary: i)
  case Nil
  then show ?case by (simp split: if_splits)
next
  case (Cons c cs)
  then show ?case by (cases i) (auto split: if_splits)
qed

lemma find_sub_NoneI:
  "(\<And>i. i \<le> length s \<Longrightarrow> \<not> prefix pat (drop i s)) \<Longrightarrow> find_sub pat s = None"
proof (induction s)
  case Nil
  then show ?case using Nil [of 0] by auto
next
  case (Cons c cs)
  have "\<not> prefix pat (c # cs)" using Cons.prems [of 0] by simp
  moreover have "find_sub pat cs = None"
  proof (rule Cons.IH)
    show "\<not> prefix pat (drop i cs)" if "i \<le> length cs" for i
      using Cons.prems [of "Suc i"] that by simp
  qed
  ultimately show ?case by simp
qed

lemma contains_iff:
  "contains pat s \<longleftrightarrow> (\<exists>i \<le> length s. prefix pat (drop i s))"
proof
  assume "contains pat s"
  then obtain i where "find_sub pat s = Some i" by (auto simp: contains_def)
  then show "\<exists>i \<le> length s. prefix pat (drop i s)"
    using find_sub_Some_prefix by blast
next
  assume "\<exists>i \<le> length s. prefix pat (drop i s)"
  then show "contains pat s"
    unfolding contains_def using find_sub_None by blast
qed

lemma contains_iff_append:
  "contains pat s \<longleftrightarrow> (\<exists>u v. s = u @ pat @ v)"
proof
  assume "contains pat s"
  then obtain i where "i \<le> length s" "prefix pat (drop i s)" by (auto simp: contains_iff)
  then obtain v where "drop i s = pat @ v" by (auto simp: prefix_def)
  then have "s = take i s @ pat @ v" by (metis append_take_drop_id)
  then show "\<exists>u v. s = u @ pat @ v" by blast
next
  assume "\<exists>u v. s = u @ pat @ v"
  then obtain u v where "s = u @ pat @ v" by blast
  then have "length u \<le> length s \<and> prefix pat (drop (length u) s)" by simp
  then show "contains pat s" unfolding contains_iff by blast
qed

text \<open>An occurrence that starts before the end of \<open>u\<close> and is the whole of \<open>pat\<close>
  does not depend on what follows \<open>u @ butlast pat\<close>.\<close>

lemma prefix_drop_append_stable:
  assumes "j < length u"
  shows "prefix pat (drop j (u @ pat @ x)) \<longleftrightarrow> prefix pat (drop j (u @ pat @ y))"
proof -
  have len: "length pat \<le> length (drop j (u @ pat))" using assms by simp
  have eq: "take (length pat) (drop j (u @ pat @ z)) = take (length pat) (drop j (u @ pat))"
    for z
  proof -
    have "drop j (u @ pat @ z) = drop j (u @ pat) @ z" using assms by simp
    then show ?thesis using len by simp
  qed
  have pre: "prefix pat w \<longleftrightarrow> take (length pat) w = pat" for w
    by (metis append_eq_conv_conj prefix_def take_is_prefix)
  show ?thesis
    unfolding pre eq [of x] eq [of y] ..
qed

lemma find_sub_append_stable:
  assumes "find_sub pat (u @ pat @ x) = Some (length u)"
  shows "find_sub pat (u @ pat @ y) = Some (length u)"
proof (rule find_sub_SomeI)
  show "prefix pat (drop (length u) (u @ pat @ y))" by simp
  show "length u \<le> length (u @ pat @ y)" by simp
  show "\<not> prefix pat (drop j (u @ pat @ y))" if "j < length u" for j
    using find_sub_Some_first [OF assms that] prefix_drop_append_stable [OF that] by blast
qed


section \<open>The splicer\<close>



lemma parse_template_plain:
  "backslash \<notin> set F \<Longrightarrow> parse_template F = Inr (map TChar F)"
  by (induction F) (auto simp: cons_part_def)

lemma expand_template_plain: "expand_template (map TChar F) m = F"
  by (induction F) (auto simp: expand_template_def)

lemma re_sub_plain:
  "backslash \<notin> set F \<Longrightarrow> re_sub F content = Inr (sub_all (map TChar F) content)"
  by (simp add: re_sub_def parse_template_plain)

lemma sub_all_no_start:
  "find_sub START_MARKER s = None \<Longrightarrow> sub_all t s = s"
  by (subst sub_all.simps) simp

lemma sub_all_no_end:
  "find_sub START_MARKER s = Some i \<Longrightarrow>
   find_sub END_MARKER (drop (i + length START_MARKER) s) = None \<Longrightarrow> sub_all t s = s"
  by (subst sub_all.simps) simp

lemma sub_all_match:
  "find_sub START_MARKER s = Some i \<Longrightarrow>
   find_sub END_MARKER (drop (i + length START_MARKER) s) = Some j \<Longrightarrow>
   sub_all t s =
     take i s
       @ expand_template t (take (length START_MARKER + j + length END_MARKER) (drop i s))
       @ sub_all t (drop (i + length START_MARKER + j + length END_MARKER) s)"
  by (subst sub_all.simps) simp

lemma sub_all_Nil [simp]: "sub_all t [] = []"
  by (rule sub_all_no_start) (simp add: START_MARKER_def)

text \<open>A fragment that stands where the first start marker stood is replaced by itself.\<close>

lemma sub_all_fragment:
  assumes F: "F = START_MARKER @ body @ END_MARKER"
    and body: "find_sub END_MARKER (body @ END_MARKER) = Some (length body)"
    and u: "find_sub START_MARKER (u @ START_MARKER @ x) = Some (length u)"
  shows "sub_all (map TChar F) (u @ F @ z) = u @ F @ sub_all (map TChar F) z"
proof -
  have s: "find_sub START_MARKER (u @ F @ z) = Some (length u)"
    using find_sub_append_stable [OF u, of "body @ END_MARKER @ z"] by (simp add: F)
  have "find_sub END_MARKER (body @ END_MARKER @ []) = Some (length body)"
    using body by simp
  then have "find_sub END_MARKER (body @ END_MARKER @ z) = Some (length body)"
    by (rule find_sub_append_stable)
  then have e: "find_sub END_MARKER (drop (length u + length START_MARKER) (u @ F @ z))
                  = Some (length body)"
    by (simp add: F)
  have "take (length START_MARKER + length body + length END_MARKER) (drop (length u) (u @ F @ z)) = F"
    by (simp add: F)
  moreover have "drop (length u + length START_MARKER + length body + length END_MARKER) (u @ F @ z) = z"
    by (simp add: F)
  ultimately show ?thesis
    using sub_all_match [OF s e, of "map TChar F"] by (simp add: expand_template_plain)
qed

lemma sub_all_idem:
  assumes F: "F = START_MARKER @ body @ END_MARKER"
    and body: "find_sub END_MARKER (body @ END_MARKER) = Some (length body)"
  shows "sub_all (map TChar F) (sub_all (map TChar F) s) = sub_all (map TChar F) s"
proof (induction "map TChar F" s rule: sub_all.induct)
  case (1 s)
  show ?case
  proof (cases "find_sub START_MARKER s")
    case None
    then show ?thesis by (simp add: sub_all_no_start)
  next
    case (Some i)
    note i = this
    show ?thesis
    proof (cases "find_sub END_MARKER (drop (i + length START_MARKER) s)")
      case None
      with i show ?thesis by (simp add: sub_all_no_end)
    next
      case (Some j)
      let ?rest = "drop (i + length START_MARKER + j + length END_MARKER) s"
      have step: "sub_all (map TChar F) s = take i s @ F @ sub_all (map TChar F) ?rest"
        using sub_all_match [OF i Some, of "map TChar F"] by (simp add: expand_template_plain)
      have IH: "sub_all (map TChar F) (sub_all (map TChar F) ?rest) = sub_all (map TChar F) ?rest"
        using "1" [OF i Some] .
      from find_sub_Some_prefix [OF i] have il: "i \<le> length s" and "prefix START_MARKER (drop i s)"
        by simp_all
      then obtain x where "drop i s = START_MARKER @ x" by (auto simp: prefix_def)
      then have "s = take i s @ START_MARKER @ x" by (metis append_take_drop_id)
      with i have "find_sub START_MARKER (take i s @ START_MARKER @ x) = Some (length (take i s))"
        using il by simp
      from sub_all_fragment [OF F body this]
      have "sub_all (map TChar F) (take i s @ F @ sub_all (map TChar F) ?rest)
              = take i s @ F @ sub_all (map TChar F) (sub_all (map TChar F) ?rest)" .
      with step IH show ?thesis by simp
    qed
  qed
qed

lemma sub_all_keeps_markers:
  assumes F: "F = START_MARKER @ body @ END_MARKER"
    and "contains START_MARKER s" and "contains END_MARKER s"
  shows "contains START_MARKER (sub_all (map TChar F) s)
         \<and> contains END_MARKER (sub_all (map TChar F) s)"
proof (cases "find_sub START_MARKER s")
  case None
  with assms show ?thesis by (simp add: sub_all_no_start)
next
  case (Some i)
  note i = this
  show ?thesis
  proof (cases "find_sub END_MARKER (drop (i + length START_MARKER) s)")
    case None
    with i assms show ?thesis by (simp add: sub_all_no_end)
  next
    case (Some j)
    define R where "R = sub_all (map TChar F) (drop (i + length START_MARKER + j + length END_MARKER) s)"
    have step: "sub_all (map TChar F) s = take i s @ F @ R"
      using sub_all_match [OF i Some, of "map TChar F"]
      by (simp add: expand_template_plain R_def)
    have "take i s @ F @ R = take i s @ START_MARKER @ (body @ END_MARKER @ R)"
      by (simp add: F)
    with step have 1: "contains START_MARKER (sub_all (map TChar F) s)"
      unfolding contains_iff_append by metis
    have "take i s @ F @ R = (take i s @ START_MARKER @ body) @ END_MARKER @ R"
      by (simp add: F)
    with step have 2: "contains END_MARKER (sub_all (map TChar F) s)"
      unfolding contains_iff_append by metis
    from 1 2 show ?thesis ..
  qed
qed

text \<open>A pattern that does not occur in \<open>c\<close> and does not have the character \<open>x\<close>
  has no occurrence that starts in \<open>c\<close> when \<open>x\<close> follows \<open>c\<close>.\<close>

lemma no_occurrence_across:
  assumes "\<not> contains pat c" and "x \<notin> set pat" and "j \<le> length c"
  shows "\<not> prefix pat (drop j (c @ x # w))"
proof
  assume p: "prefix pat (drop j (c @ x # w))"
  then have p': "prefix pat (drop j c @ x # w)" using assms(3) by simp
  show False
  proof (cases "length pat \<le> length (drop j c)")
    case True
    with p' have "prefix pat (drop j c)"
      by (metis prefix_length_prefix append_prefixD prefix_order.order_refl prefixI)
    with assms(1,3) show False by (auto simp: contains_iff)
  next
    case False
    then have lt: "length (drop j c) < length pat" by simp
    from p' obtain v where "drop j c @ x # w = pat @ v" by (auto simp: prefix_def)
    then have "pat ! length (drop j c) = (drop j c @ x # w) ! length (drop j c)"
      using lt by (metis nth_append)
    then have "pat ! length (drop j c) = x" by (simp add: nth_append)
    with lt assms(2) show False by (metis nth_mem)
  qed
qed

lemma fragment_shape:
  "fragment row now rs = Inr F \<Longrightarrow> \<exists>body. F = START_MARKER @ body @ END_MARKER"
  by (auto simp: fragment_def fragment_head_def split: if_splits sum.splits)

lemma plain_fragment_body:
  assumes "plain_fragment F" and "F = START_MARKER @ body @ END_MARKER"
  shows "find_sub END_MARKER (body @ END_MARKER) = Some (length body)"
  using assms by (simp add: plain_fragment_def)

lemma no_start_before_appended:
  assumes "\<not> contains START_MARKER content"
  shows "find_sub START_MARKER ((content @ [CHR 0x0A, CHR 0x0A]) @ START_MARKER @ x)
           = Some (length (content @ [CHR 0x0A, CHR 0x0A]))"
proof (rule find_sub_SomeI)
  have nl: "CHR 0x0A \<notin> set START_MARKER" by (simp add: START_MARKER_def)
  have ne: "START_MARKER \<noteq> []" by (simp add: START_MARKER_def)
  have c1: "\<not> contains START_MARKER (content @ [CHR 0x0A])"
  proof
    assume "contains START_MARKER (content @ [CHR 0x0A])"
    then obtain i where i: "i \<le> length (content @ [CHR 0x0A])"
      and p: "prefix START_MARKER (drop i (content @ [CHR 0x0A]))"
      by (auto simp: contains_iff)
    show False
    proof (cases "i \<le> length content")
      case True
      from no_occurrence_across [OF assms nl True, of "[]"] p show False by simp
    next
      case False
      with i have "drop i (content @ [CHR 0x0A]) = []" by simp
      with p ne show False by simp
    qed
  qed
  show "prefix START_MARKER
          (drop (length (content @ [CHR 0x0A, CHR 0x0A]))
             ((content @ [CHR 0x0A, CHR 0x0A]) @ START_MARKER @ x))"
    by simp
  show "length (content @ [CHR 0x0A, CHR 0x0A])
          \<le> length ((content @ [CHR 0x0A, CHR 0x0A]) @ START_MARKER @ x)"
    by simp
  show "\<not> prefix START_MARKER (drop j ((content @ [CHR 0x0A, CHR 0x0A]) @ START_MARKER @ x))"
    if "j < length (content @ [CHR 0x0A, CHR 0x0A])" for j
  proof (cases "j \<le> length content")
    case True
    from no_occurrence_across [OF assms nl True, of "CHR 0x0A # START_MARKER @ x"]
    show ?thesis by simp
  next
    case False
    with that have j: "j \<le> length (content @ [CHR 0x0A])" by simp
    from no_occurrence_across [OF c1 nl j, of "START_MARKER @ x"]
    show ?thesis by simp
  qed
qed

lemma splice_appended:
  "\<not> (contains START_MARKER content \<and> contains END_MARKER content) \<Longrightarrow>
   splice content F = Inr (content @ [CHR 0x0A, CHR 0x0A] @ F)"
  by (auto simp: splice_def)

lemma splice_replaced:
  "contains START_MARKER content \<Longrightarrow> contains END_MARKER content \<Longrightarrow>
   backslash \<notin> set F \<Longrightarrow> splice content F = Inr (sub_all (map TChar F) content)"
  by (simp add: splice_def re_sub_plain)

lemma splice_idem:
  assumes shape: "F = START_MARKER @ body @ END_MARKER"
    and plain: "plain_fragment F"
    and content: "contains START_MARKER content \<longrightarrow> contains END_MARKER content"
  shows "\<exists>c1. splice content F = Inr c1 \<and> splice c1 F = Inr c1"
proof -
  have bs: "backslash \<notin> set F" using plain by (simp add: plain_fragment_def)
  have body: "find_sub END_MARKER (body @ END_MARKER) = Some (length body)"
    using plain shape by (rule plain_fragment_body)
  show ?thesis
  proof (cases "contains START_MARKER content")
    case True
    with content have e: "contains END_MARKER content" by simp
    let ?c1 = "sub_all (map TChar F) content"
    have 1: "splice content F = Inr ?c1" using True e bs by (rule splice_replaced)
    from sub_all_keeps_markers [OF shape True e]
    have "splice ?c1 F = Inr (sub_all (map TChar F) ?c1)"
      using bs by (intro splice_replaced) simp_all
    then have "splice ?c1 F = Inr ?c1"
      using sub_all_idem [OF shape body] by simp
    with 1 show ?thesis by blast
  next
    case False
    let ?u = "content @ [CHR 0x0A, CHR 0x0A]"
    let ?c1 = "content @ [CHR 0x0A, CHR 0x0A] @ F"
    have 1: "splice content F = Inr ?c1" using False by (intro splice_appended) simp
    have "?c1 = ?u @ START_MARKER @ (body @ END_MARKER)" by (simp add: shape)
    then have s: "contains START_MARKER ?c1" unfolding contains_iff_append by blast
    have "?c1 = (?u @ START_MARKER @ body) @ END_MARKER @ []" by (simp add: shape)
    then have e: "contains END_MARKER ?c1" unfolding contains_iff_append by blast
    have "sub_all (map TChar F) (?u @ F @ []) = ?u @ F @ sub_all (map TChar F) []"
      using shape body no_start_before_appended [OF False] by (rule sub_all_fragment)
    then have "sub_all (map TChar F) ?c1 = ?c1" by simp
    moreover have "splice ?c1 F = Inr (sub_all (map TChar F) ?c1)"
      using s e bs by (rule splice_replaced)
    ultimately have "splice ?c1 F = Inr ?c1" by simp
    with 1 show ?thesis by blast
  qed
qed





text \<open>
  C2. When the content of the target does not have a start marker without an end marker,
  and the rendered fragment is plain (it has no backslash, and the first end marker behind
  its start marker is its last line), the new content of a second run on the new content
  of the first run, with the same change map and the same \<open>now\<close>, is the new content
  of the first run; so for \<open>update_readme\<close> and for \<open>update_file\<close>.
\<close>

theorem splicer_idempotent:
  assumes "contains START_MARKER content \<longrightarrow> contains END_MARKER content"
  shows "(\<forall>F. fragment (readme_row cwd path) now (get_directory_changes path all_file_updates)
                = Inr F \<and> plain_fragment F \<longrightarrow>
              (\<exists>c1. readme_new_content cwd now path all_file_updates content = Inr c1
                    \<and> readme_new_content cwd now path all_file_updates c1 = Inr c1))
       \<and> (\<forall>F. fragment (jekyll_row cwd is_jekyll) now (get_directory_changes path all_file_updates)
                = Inr F \<and> plain_fragment F \<longrightarrow>
              (\<exists>c1. file_new_content cwd now is_jekyll path all_file_updates content = Inr c1
                    \<and> file_new_content cwd now is_jekyll path all_file_updates c1 = Inr c1))"
proof (intro conjI allI impI)
  fix F
  assume h: "fragment (readme_row cwd path) now (get_directory_changes path all_file_updates)
               = Inr F \<and> plain_fragment F"
  then obtain body where "F = START_MARKER @ body @ END_MARKER"
    using fragment_shape by blast
  from splice_idem [OF this _ assms] h
  show "\<exists>c1. readme_new_content cwd now path all_file_updates content = Inr c1
             \<and> readme_new_content cwd now path all_file_updates c1 = Inr c1"
    by (simp add: readme_new_content_def)
next
  fix F
  assume h: "fragment (jekyll_row cwd is_jekyll) now
               (get_directory_changes path all_file_updates) = Inr F \<and> plain_fragment F"
  then obtain body where "F = START_MARKER @ body @ END_MARKER"
    using fragment_shape by blast
  from splice_idem [OF this _ assms] h
  show "\<exists>c1. file_new_content cwd now is_jekyll path all_file_updates content = Inr c1
             \<and> file_new_content cwd now is_jekyll path all_file_updates c1 = Inr c1"
    by (simp add: file_new_content_def)
qed

theorem splicer_idempotent_witness:
  "(\<exists>c1. readme_new_content example_cwd example_now ''docs/readme.md''
            [(''docs/sub/file.py'', example_info)] (''# Docs'' @ [CHR 0x0A]) = Inr c1
          \<and> readme_new_content example_cwd example_now ''docs/readme.md''
              [(''docs/sub/file.py'', example_info)] c1 = Inr c1)
   \<and> (\<exists>c1. file_new_content example_cwd example_now True ''docs/readme.md''
              [(''docs/sub/file.py'', example_info)] (''# Docs'' @ [CHR 0x0A]) = Inr c1
            \<and> file_new_content example_cwd example_now True ''docs/readme.md''
                [(''docs/sub/file.py'', example_info)] c1 = Inr c1)"
proof -
  let ?F1 = "fragment_head example_now @ table_head
               @ ''| [file.py](sub/file.py) | 2024-01-02 | A | [fix bug](u) |'' @ [CHR 0x0A]
               @ [CHR 0x0A] @ END_MARKER"
  let ?F2 = "fragment_head example_now @ table_head
               @ ''| [file.py](/docs/sub/file.py) | 2024-01-02 | A | [fix bug](u) |''
               @ [CHR 0x0A] @ [CHR 0x0A] @ END_MARKER"
  have c: "contains START_MARKER (''# Docs'' @ [CHR 0x0A])
             \<longrightarrow> contains END_MARKER (''# Docs'' @ [CHR 0x0A])"
    by code_simp
  have f1: "fragment (readme_row example_cwd ''docs/readme.md'') example_now
              (get_directory_changes ''docs/readme.md'' [(''docs/sub/file.py'', example_info)])
            = Inr ?F1"
    by code_simp
  have p1: "plain_fragment ?F1" by code_simp
  have f2: "fragment (jekyll_row example_cwd True) example_now
              (get_directory_changes ''docs/readme.md'' [(''docs/sub/file.py'', example_info)])
            = Inr ?F2"
    by code_simp
  have p2: "plain_fragment ?F2" by code_simp
  from splicer_idempotent
         [OF c, where cwd = example_cwd and path = "''docs/readme.md''" and now = example_now
            and all_file_updates = "[(''docs/sub/file.py'', example_info)]"
            and is_jekyll = True]
       f1 p1 f2 p2
  show ?thesis by blast
qed

text \<open>
  C2 as stated fails in three ways. For a content that is the start marker alone, the
  first run appends the fragment, and the second run replaces the text from the stray
  start marker through the end marker of the appended fragment. For a commit message
  that holds the end marker, the second run replaces the fragment only up to that
  marker and leaves the rest of the row behind it. For a commit message with a
  backslash escape, the first run appends the fragment as it is, and the second run
  passes it through the template of \<open>re.sub\<close>, which turns the escape into a line feed.
\<close>

theorem splicer_idempotent_counterexample:
  "readme_new_content example_cwd example_now ''README.md'' [] START_MARKER
     = Inr (START_MARKER @ [CHR 0x0A, CHR 0x0A] @ example_empty_fragment)
   \<and> readme_new_content example_cwd example_now ''README.md'' []
       (START_MARKER @ [CHR 0x0A, CHR 0x0A] @ example_empty_fragment)
     = Inr example_empty_fragment
   \<and> START_MARKER @ [CHR 0x0A, CHR 0x0A] @ example_empty_fragment \<noteq> example_empty_fragment
   \<and> \<not> isl (readme_new_content example_cwd example_now ''README.md''
              [(''a.py'', example_info\<lparr>commit_message := ''keep '' @ END_MARKER\<rparr>)] ''# T'')
   \<and> readme_new_content example_cwd example_now ''README.md''
         [(''a.py'', example_info\<lparr>commit_message := ''keep '' @ END_MARKER\<rparr>)]
         (projr (readme_new_content example_cwd example_now ''README.md''
                   [(''a.py'', example_info\<lparr>commit_message := ''keep '' @ END_MARKER\<rparr>)]
                   ''# T''))
       \<noteq> readme_new_content example_cwd example_now ''README.md''
           [(''a.py'', example_info\<lparr>commit_message := ''keep '' @ END_MARKER\<rparr>)] ''# T''
   \<and> \<not> isl (readme_new_content example_cwd example_now ''README.md''
              [(''a.py'', example_info\<lparr>commit_message := ''split on '' @ [backslash] @ ''n''\<rparr>)]
              ''# T'')
   \<and> readme_new_content example_cwd example_now ''README.md''
         [(''a.py'', example_info\<lparr>commit_message := ''split on '' @ [backslash] @ ''n''\<rparr>)]
         (projr (readme_new_content example_cwd example_now ''README.md''
                   [(''a.py'', example_info\<lparr>commit_message := ''split on '' @ [backslash] @ ''n''\<rparr>)]
                   ''# T''))
       \<noteq> readme_new_content example_cwd example_now ''README.md''
           [(''a.py'', example_info\<lparr>commit_message := ''split on '' @ [backslash] @ ''n''\<rparr>)]
           ''# T''"
  by code_simp


section \<open>Links of the Jekyll rows\<close>

lemma contains_Cons: "contains pat cs \<Longrightarrow> contains pat (c # cs)"
  by (auto simp: contains_def)

lemma replace_ne_absent:
  "old \<noteq> [] \<Longrightarrow> \<not> contains old s \<Longrightarrow> replace_ne old new s = s"
proof (induction s)
  case Nil
  then show ?case by simp
next
  case (Cons c cs)
  from Cons.prems(2) have "\<not> prefix old (c # cs)" by (auto simp: contains_def)
  moreover from Cons.prems(2) have "\<not> contains old cs" using contains_Cons by blast
  ultimately show ?case using Cons by simp
qed

lemma replace_ne_self: "old \<noteq> [] \<Longrightarrow> replace_ne old new old = new"
  by (cases old) simp_all

lemma replace_ne_at_end:
  "old \<noteq> [] \<Longrightarrow> find_sub old (stem @ old) = Some (length stem) \<Longrightarrow>
   replace_ne old new (stem @ old) = stem @ new"
proof (induction stem)
  case Nil
  then show ?case by (simp add: replace_ne_self)
next
  case (Cons c st)
  from Cons.prems(2) have np: "\<not> prefix old (c # st @ old)" by (auto split: if_splits)
  with Cons.prems(2) have "find_sub old (st @ old) = Some (length st)" by auto
  with Cons.IH Cons.prems(1) have "replace_ne old new (st @ old) = st @ new" by simp
  with np show ?case by simp
qed

lemma contains_butlast:
  assumes "contains pat (s @ [x])" and "pat \<noteq> []" and "last pat \<noteq> x"
  shows "contains pat s"
proof -
  from assms(1) obtain u v where uv: "s @ [x] = u @ pat @ v" by (auto simp: contains_iff_append)
  show ?thesis
  proof (cases v rule: rev_cases)
    case Nil
    with uv have "last (s @ [x]) = last (u @ pat)" by simp
    with assms(2,3) show ?thesis by simp
  next
    case (snoc v' y)
    with uv have "s @ [x] = (u @ pat @ v') @ [y]" by simp
    then have "s = u @ pat @ v'" by (metis append1_eq_conv)
    then show ?thesis unfolding contains_iff_append by blast
  qed
qed

lemma contains_append_left: "contains pat s \<Longrightarrow> contains pat (s @ t)"
proof -
  assume "contains pat s"
  then obtain u v where "s = u @ pat @ v" by (auto simp: contains_iff_append)
  then have "s @ t = u @ pat @ (v @ t)" by simp
  then show ?thesis unfolding contains_iff_append by blast
qed

text \<open>A path with the extension \<open>.md\<close> that has no other \<open>.md\<close> and no \<open>.markdown\<close>.\<close>

lemma replace_md:
  assumes md: "find_sub ''.md'' (stem @ ''.md'') = Some (length stem)"
    and mk: "find_sub ''.markdown'' (stem @ ''.md'') = None"
  shows "replace_str ''.markdown'' ''/'' (replace_str ''.md'' ''/'' (stem @ ''.md'')) = stem @ ''/''"
proof -
  have 1: "replace_str ''.md'' ''/'' (stem @ ''.md'') = stem @ ''/''"
    using md by (simp add: replace_str_def replace_ne_at_end)
  have "\<not> contains ''.markdown'' (stem @ ''.md'')"
    using mk by (simp add: contains_def)
  then have "\<not> contains ''.markdown'' stem"
    using contains_append_left [of "''.markdown''" stem "''.md''"] by blast
  then have "\<not> contains ''.markdown'' (stem @ ''/'')"
    using contains_butlast [of "''.markdown''" stem "CHR ''/''"] by auto
  then have "replace_str ''.markdown'' ''/'' (stem @ ''/'') = stem @ ''/''"
    by (simp add: replace_str_def replace_ne_absent)
  with 1 show ?thesis by simp
qed

lemma replace_markdown:
  assumes md: "find_sub ''.md'' (stem @ ''.markdown'') = None"
    and mk: "find_sub ''.markdown'' (stem @ ''.markdown'') = Some (length stem)"
  shows "replace_str ''.markdown'' ''/'' (replace_str ''.md'' ''/'' (stem @ ''.markdown''))
           = stem @ ''/''"
proof -
  have "replace_str ''.md'' ''/'' (stem @ ''.markdown'') = stem @ ''.markdown''"
    using md by (simp add: replace_str_def replace_ne_absent contains_def)
  moreover have "replace_str ''.markdown'' ''/'' (stem @ ''.markdown'') = stem @ ''/''"
    using mk by (simp add: replace_str_def replace_ne_at_end)
  ultimately show ?thesis by simp
qed

lemma find_sub_at_end_exists: "find_sub pat (stem @ pat) \<noteq> None"
proof -
  have "contains pat (stem @ pat @ [])" unfolding contains_iff_append by blast
  then show ?thesis by (simp add: contains_def)
qed

lemma find_sub_not_at:
  "\<not> prefix pat (drop i s) \<Longrightarrow> find_sub pat s \<noteq> Some i"
  using find_sub_Some_prefix by blast

lemma dirname_Nil [simp]: "dirname [] = []"
  by (simp add: dirname_def after_last_sep_def)

lemma rel_path_from_own_dir:
  "\<exists>rel_path. rel_path_from cwd (dirname file_path) file_path = Inr rel_path"
  by (cases "file_path = []") (auto simp: rel_path_from_def relpath_def Let_def)

text \<open>
  C6. In \<open>update_jekyll_readmes.py\<close>, for a Jekyll target and a changed file outside
  \<open>_posts/\<close>: when the extension of the file is \<open>.md\<close> or \<open>.markdown\<close>, its path
  does not end with \<open>README.md\<close>, and \<open>.md\<close> and \<open>.markdown\<close> occur in the path
  only as that extension, the link target is \<open>/\<close> followed by the path with the
  extension replaced by a slash; when the extension is neither of the two, or the path
  ends with \<open>README.md\<close>, the link target is \<open>/\<close> followed by the path.
\<close>

theorem jekyll_link_of_markdown:
  assumes "\<not> prefix ''_posts/'' file_path"
  shows "(file_path = stem @ ext \<and> snd (splitext (basename file_path)) = ext
          \<and> (ext = ''.md'' \<or> ext = ''.markdown'') \<and> \<not> suffix ''README.md'' file_path
          \<and> find_sub ''.md'' file_path \<in> {None, Some (length stem)}
          \<and> find_sub ''.markdown'' file_path \<in> {None, Some (length stem)} \<longrightarrow>
            jekyll_link file_path = ''/'' @ stem @ ''/'')
       \<and> ((snd (splitext (basename file_path)) \<noteq> ''.md''
            \<and> snd (splitext (basename file_path)) \<noteq> ''.markdown'')
           \<or> suffix ''README.md'' file_path \<longrightarrow>
            jekyll_link file_path = ''/'' @ file_path)
       \<and> jekyll_row cwd True (file_path, info)
           = Inr (table_row (jekyll_name file_path) (jekyll_link file_path) info)"
proof (intro conjI impI)
  assume h: "file_path = stem @ ext \<and> snd (splitext (basename file_path)) = ext
          \<and> (ext = ''.md'' \<or> ext = ''.markdown'') \<and> \<not> suffix ''README.md'' file_path
          \<and> find_sub ''.md'' file_path \<in> {None, Some (length stem)}
          \<and> find_sub ''.markdown'' file_path \<in> {None, Some (length stem)}"
  then have e: "snd (splitext (basename file_path)) = ''.md''
                \<or> snd (splitext (basename file_path)) = ''.markdown''"
    and ns: "\<not> suffix ''README.md'' file_path"
    by auto
  have link: "jekyll_link file_path
                = ''/'' @ replace_str ''.markdown'' ''/'' (replace_str ''.md'' ''/'' file_path)"
    using assms e ns unfolding jekyll_link_def Let_def by simp
  from h consider (md) "ext = ''.md''" | (markdown) "ext = ''.markdown''" by blast
  then have "replace_str ''.markdown'' ''/'' (replace_str ''.md'' ''/'' file_path) = stem @ ''/''"
  proof cases
    case md
    with h have fp: "file_path = stem @ ''.md''" by simp
    have "find_sub ''.md'' (stem @ ''.md'') = Some (length stem)"
      using h fp find_sub_at_end_exists [of "''.md''" stem] by auto
    moreover have "find_sub ''.markdown'' (stem @ ''.md'') \<noteq> Some (length stem)"
      by (rule find_sub_not_at) simp
    then have "find_sub ''.markdown'' (stem @ ''.md'') = None"
      using h fp by auto
    ultimately show ?thesis unfolding fp by (rule replace_md)
  next
    case markdown
    with h have fp: "file_path = stem @ ''.markdown''" by simp
    have "find_sub ''.markdown'' (stem @ ''.markdown'') = Some (length stem)"
      using h fp find_sub_at_end_exists [of "''.markdown''" stem] by auto
    moreover have "find_sub ''.md'' (stem @ ''.markdown'') \<noteq> Some (length stem)"
      by (rule find_sub_not_at) simp
    then have "find_sub ''.md'' (stem @ ''.markdown'') = None"
      using h fp by auto
    ultimately show ?thesis unfolding fp by (intro replace_markdown)
  qed
  with link show "jekyll_link file_path = ''/'' @ stem @ ''/''" by simp
next
  assume "(snd (splitext (basename file_path)) \<noteq> ''.md''
            \<and> snd (splitext (basename file_path)) \<noteq> ''.markdown'')
           \<or> suffix ''README.md'' file_path"
  then show "jekyll_link file_path = ''/'' @ file_path"
    using assms unfolding jekyll_link_def Let_def by auto
next
  show "jekyll_row cwd True (file_path, info)
           = Inr (table_row (jekyll_name file_path) (jekyll_link file_path) info)"
    using rel_path_from_own_dir [of cwd file_path] by (auto simp: jekyll_row_def)
qed

theorem jekyll_link_of_markdown_witness:
  "jekyll_link ''docs/guide.md'' = ''/docs/guide/''
   \<and> jekyll_link ''docs/guide.markdown'' = ''/docs/guide/''
   \<and> jekyll_link ''docs/sub/file.py'' = ''/docs/sub/file.py''
   \<and> jekyll_link ''docs/README.md'' = ''/docs/README.md''"
proof -
  have p1: "\<not> prefix ''_posts/'' ''docs/guide.md''" by code_simp
  have h1: "''docs/guide.md'' = ''docs/guide'' @ ''.md''
            \<and> snd (splitext (basename ''docs/guide.md'')) = ''.md''
            \<and> (''.md'' = ''.md'' \<or> ''.md'' = ''.markdown'')
            \<and> \<not> suffix ''README.md'' ''docs/guide.md''
            \<and> find_sub ''.md'' ''docs/guide.md'' \<in> {None, Some (length ''docs/guide'')}
            \<and> find_sub ''.markdown'' ''docs/guide.md'' \<in> {None, Some (length ''docs/guide'')}"
    by code_simp
  have p2: "\<not> prefix ''_posts/'' ''docs/guide.markdown''" by code_simp
  have h2: "''docs/guide.markdown'' = ''docs/guide'' @ ''.markdown''
            \<and> snd (splitext (basename ''docs/guide.markdown'')) = ''.markdown''
            \<and> (''.markdown'' = ''.md'' \<or> ''.markdown'' = ''.markdown'')
            \<and> \<not> suffix ''README.md'' ''docs/guide.markdown''
            \<and> find_sub ''.md'' ''docs/guide.markdown'' \<in> {None, Some (length ''docs/guide'')}
            \<and> find_sub ''.markdown'' ''docs/guide.markdown''
                \<in> {None, Some (length ''docs/guide'')}"
    by code_simp
  have p3: "\<not> prefix ''_posts/'' ''docs/sub/file.py''" by code_simp
  have h3: "snd (splitext (basename ''docs/sub/file.py'')) \<noteq> ''.md''
            \<and> snd (splitext (basename ''docs/sub/file.py'')) \<noteq> ''.markdown''"
    by code_simp
  have p4: "\<not> prefix ''_posts/'' ''docs/README.md''" by code_simp
  have h4: "suffix ''README.md'' ''docs/README.md''" by code_simp
  from jekyll_link_of_markdown [OF p1, of "''docs/guide''" "''.md''"] h1
  have "jekyll_link ''docs/guide.md'' = ''/'' @ ''docs/guide'' @ ''/''" by blast
  moreover from jekyll_link_of_markdown [OF p2, of "''docs/guide''" "''.markdown''"] h2
  have "jekyll_link ''docs/guide.markdown'' = ''/'' @ ''docs/guide'' @ ''/''" by blast
  moreover from jekyll_link_of_markdown [OF p3] h3
  have "jekyll_link ''docs/sub/file.py'' = ''/'' @ ''docs/sub/file.py''" by blast
  moreover from jekyll_link_of_markdown [OF p4] h4
  have "jekyll_link ''docs/README.md'' = ''/'' @ ''docs/README.md''" by blast
  ultimately show ?thesis by simp
qed

text \<open>
  C6 as stated fails in three ways. \<open>docs/OLD_README.md\<close> has the extension \<open>.md\<close>,
  is not a README and is no blog post, but its path ends with \<open>README.md\<close>, which is
  what the code tests, so the link keeps the extension. In \<open>notes.md.d/guide.md\<close>
  \<open>str.replace\<close> replaces every \<open>.md\<close> of the path, not only the extension. Under
  \<open>_posts/\<close> a file that the post pattern does not match keeps the extension
  \<open>.markdown\<close>.
\<close>

theorem jekyll_link_readme_suffix_counterexample:
  "snd (splitext (basename ''docs/OLD_README.md'')) = ''.md''
   \<and> lower (basename ''docs/OLD_README.md'') \<noteq> ''readme.md''
   \<and> \<not> prefix ''_posts/'' ''docs/OLD_README.md''
   \<and> jekyll_link ''docs/OLD_README.md'' = ''/docs/OLD_README.md''
   \<and> snd (splitext (basename ''notes.md.d/guide.md'')) = ''.md''
   \<and> jekyll_link ''notes.md.d/guide.md'' = ''/notes/.d/guide/''
   \<and> snd (splitext (basename ''_posts/2024-03-01-hello-world.markdown'')) = ''.markdown''
   \<and> post_match ''_posts/2024-03-01-hello-world.markdown'' = None
   \<and> jekyll_link ''_posts/2024-03-01-hello-world.markdown''
       = ''/_posts/2024-03-01-hello-world.markdown''"
  by code_simp

text \<open>The example of the specification for a blog post.\<close>

lemma jekyll_blog_post_example:
  "jekyll_link ''_posts/2024-03-01-hello-world.md'' = ''/blog/hello-world''
   \<and> jekyll_name ''_posts/2024-03-01-hello-world.md'' = ''2024-03-01: hello world''"
  by code_simp


section \<open>The renderer\<close>










section \<open>Runs of the splicer on a working tree\<close>

lemma render_rows_ok:
  "(\<And>e. e \<in> set es \<Longrightarrow> \<exists>r. row e = Inr r) \<Longrightarrow> \<exists>rs. render_rows row es = Inr rs"
proof (induction es)
  case Nil
  then show ?case by simp
next
  case (Cons e es)
  from Cons.prems [of e] obtain r where r: "row e = Inr r" by auto
  from Cons.IH Cons.prems obtain rs where "render_rows row es = Inr rs" by auto
  with r show ?case by simp
qed

lemma readme_row_scoped:
  assumes "e \<in> set (get_directory_changes readme_path all_file_updates)"
  shows "\<exists>r. readme_row cwd readme_path e = Inr r"
proof -
  obtain k v where e: "e = (k, v)" by (cases e)
  with assms scoped_keys have p: "prefix (directory_prefix readme_path) k" by blast
  have "dirname readme_path \<noteq> [] \<Longrightarrow> k \<noteq> []"
    using p by (auto simp: directory_prefix_def Let_def)
  then have "\<exists>rel. rel_path_from cwd (dirname readme_path) k = Inr rel"
    by (auto simp: rel_path_from_def relpath_def Let_def)
  then show ?thesis by (auto simp: readme_row_def e)
qed

lemma fragment_readme_ok:
  "\<exists>F. fragment (readme_row cwd readme_path) now
          (get_directory_changes readme_path all_file_updates) = Inr F"
proof -
  from render_rows_ok [of "get_directory_changes readme_path all_file_updates"
                          "readme_row cwd readme_path"]
  obtain rs where "render_rows (readme_row cwd readme_path)
                     (get_directory_changes readme_path all_file_updates) = Inr rs"
    using readme_row_scoped by blast
  then show ?thesis by (simp add: fragment_def)
qed

subsection \<open>What a run writes\<close>

text \<open>A run of \<open>update_readme\<close> that succeeds changes the target and nothing else.\<close>

lemma update_readme_example:
  "\<not> isl (update_readme example_cwd example_now example_tree ''docs/readme.md''
            [(''docs/sub/file.py'', example_info)])
   \<and> projr (update_readme example_cwd example_now example_tree ''docs/readme.md''
              [(''docs/sub/file.py'', example_info)]) ''docs/readme.md''
       = Some (File (''# Docs'' @ [CHR 0x0A] @ [CHR 0x0A, CHR 0x0A]
                     @ fragment_head example_now @ table_head
                     @ ''| [file.py](sub/file.py) | 2024-01-02 | A | [fix bug](u) |''
                     @ [CHR 0x0A] @ [CHR 0x0A] @ END_MARKER))
   \<and> projr (update_readme example_cwd example_now example_tree ''docs/readme.md''
              [(''docs/sub/file.py'', example_info)]) ''docs/sub/file.py''
       = Some (File (''print(1)'' @ [CHR 0x0A]))"
  by code_simp

text \<open>
  C1. \<open>update_file\<close> of \<open>update_jekyll_readmes.py\<close>, for the target
  \<open>docs/readme.md\<close> with the changed file \<open>docs/sub/file.py\<close> in its scope: the run
  succeeds, the target is as it was, and the spliced content of the target has replaced
  the content of \<open>docs/sub/file.py\<close>. The loop over the scoped entries reuses the name
  \<open>file_path\<close>, so the write goes to the last entry of the loop.
\<close>

theorem update_file_writes_changed_file:
  "\<not> isl (update_file example_cwd example_now example_tree ''docs/readme.md''
            [(''docs/sub/file.py'', example_info)])
   \<and> projr (update_file example_cwd example_now example_tree ''docs/readme.md''
              [(''docs/sub/file.py'', example_info)]) ''docs/readme.md''
       = Some (File (''# Docs'' @ [CHR 0x0A]))
   \<and> projr (update_file example_cwd example_now example_tree ''docs/readme.md''
              [(''docs/sub/file.py'', example_info)]) ''docs/sub/file.py''
       = Some (File (''# Docs'' @ [CHR 0x0A] @ [CHR 0x0A, CHR 0x0A]
                     @ fragment_head example_now @ table_head
                     @ ''| [file.py](file.py) | 2024-01-02 | A | [fix bug](u) |'' @ [CHR 0x0A]
                     @ [CHR 0x0A] @ END_MARKER))"
  by code_simp

text \<open>
  C7. The row of \<open>update_file\<close> for a target that is no Jekyll file, in the example of
  the specification: target \<open>docs/readme.md\<close> and changed file \<open>docs/sub/file.py\<close>.
  The relative path is taken from the directory of the changed file, so the link is the
  basename \<open>file.py\<close> and not \<open>sub/file.py\<close>.
\<close>

theorem jekyll_script_plain_row_example:
  "is_jekyll_file example_tree ''docs/readme.md'' = False
   \<and> get_directory_changes ''docs/readme.md'' [(''docs/sub/file.py'', example_info)]
       = [(''docs/sub/file.py'', example_info)]
   \<and> jekyll_row example_cwd False (''docs/sub/file.py'', example_info)
       = Inr (''| [file.py](file.py) | 2024-01-02 | A | [fix bug](u) |'' @ [CHR 0x0A])"
  by code_simp

text \<open>
  \<open>update_readme\<close> of \<open>update_readmes.py\<close> takes the relative path from the
  directory of the target: for every scoped entry the label is the basename of the changed
  file and the link is that relative path with its spaces encoded; it renders the row of
  the example.
\<close>

lemma readme_row_label_and_link:
  assumes "(file_path, info) \<in> set (get_directory_changes readme_path all_file_updates)"
  shows "\<exists>rel_path. rel_path_from cwd (dirname readme_path) file_path = Inr rel_path
           \<and> readme_row cwd readme_path (file_path, info)
               = Inr (table_row (basename file_path)
                        (replace_str '' '' ''%20'' rel_path) info)"
  using readme_row_scoped [OF assms, of cwd]
  by (auto simp: readme_row_def split: sum.splits)

lemma readme_row_example:
  "readme_row example_cwd ''docs/readme.md'' (''docs/sub/file.py'', example_info)
     = Inr (''| [file.py](sub/file.py) | 2024-01-02 | A | [fix bug](u) |'' @ [CHR 0x0A])"
  by code_simp

end
